theory Spec2Isabelle
  imports Complex_Main "HOL-Library.AList"
begin

section \<open>Data model\<close>

text \<open>
  The two dataclasses of \<^verbatim>\<open>black_frame_detector.py\<close>. Python's unbounded \<^verbatim>\<open>int\<close> is
  \<^typ>\<open>int\<close>. A Python \<^verbatim>\<open>float\<close> is modelled by the exact rational it denotes
  (\<^typ>\<open>rat\<close>): rounding of floating-point arithmetic is not part of the model.
  \<^verbatim>\<open>Optional[t]\<close> is \<^typ>\<open>'a option\<close>.
\<close>

record BlackFrameHit =
  frame :: int
  time_s :: "rat option"
  pblack :: "rat option"
  pts :: "int option"

record BlackRange =
  start_frame :: int
  end_frame :: int
  start_time_s :: "rat option"
  end_time_s :: "rat option"
  length_frames :: int
  avg_pblack :: "rat option"
  min_pblack :: "rat option"

section \<open>Range building\<close>

text \<open>
  \<^verbatim>\<open>finalize\<close> is the closure nested in \<^verbatim>\<open>build_ranges\<close>; the variable
  \<^verbatim>\<open>min_run_frames\<close> it captures is its first argument here. The comprehension
  \<^verbatim>\<open>[h.pblack for h in group if h.pblack is not None]\<close> is \<^const>\<open>List.map_filter\<close>.
\<close>

definition finalize :: "int \<Rightarrow> BlackFrameHit list \<Rightarrow> BlackRange option" where
  "finalize min_run_frames group' =
     (if group' = [] then None
      else
        let start = hd group';
            end' = last group';
            length' = frame end' - frame start + 1
        in if length' < min_run_frames then None
           else
             let pvals = List.map_filter pblack group';
                 avg_pb = (if pvals \<noteq> [] then Some (sum_list pvals / of_nat (length pvals)) else None);
                 min_pb = (if pvals \<noteq> [] then Some (min_list pvals) else None)
             in Some \<lparr>start_frame = frame start,
                      end_frame = frame end',
                      start_time_s = time_s start,
                      end_time_s = time_s end',
                      length_frames = length',
                      avg_pblack = avg_pb,
                      min_pblack = min_pb\<rparr>)"

text \<open>
  The \<^verbatim>\<open>for h in hits_sorted[1:]\<close> loop with its two loop variables \<^verbatim>\<open>cur\<close> and
  \<^verbatim>\<open>ranges\<close>, followed by the final \<^verbatim>\<open>finalize(cur)\<close> after the loop. \<^verbatim>\<open>cur\<close> is
  never empty when \<^verbatim>\<open>cur[-1]\<close> is read: it starts as a one-element list and is only
  extended or replaced by a one-element list.
\<close>

fun build_loop ::
  "int \<Rightarrow> BlackFrameHit list \<Rightarrow> BlackRange list \<Rightarrow> BlackFrameHit list \<Rightarrow> BlackRange list" where
  "build_loop min_run_frames cur ranges [] =
     (case finalize min_run_frames cur of
        Some r \<Rightarrow> ranges @ [r]
      | None \<Rightarrow> ranges)"
| "build_loop min_run_frames cur ranges (h # rest) =
     (let prev = last cur
      in if frame h = frame prev + 1
         then build_loop min_run_frames (cur @ [h]) ranges rest
         else (case finalize min_run_frames cur of
                 Some r \<Rightarrow> build_loop min_run_frames [h] (ranges @ [r]) rest
               | None \<Rightarrow> build_loop min_run_frames [h] ranges rest))"

text \<open>
  \<^verbatim>\<open>sorted(hits, key=lambda h: h.frame)\<close> is a stable sort by key, which is what
  \<^const>\<open>sort_key\<close> computes.
\<close>

definition build_ranges :: "BlackFrameHit list \<Rightarrow> int \<Rightarrow> BlackRange list" where
  "build_ranges hits min_run_frames =
     (if hits = [] then []
      else
        let hits_sorted = sort_key frame hits
        in build_loop min_run_frames [hd hits_sorted] [] (tl hits_sorted))"

text \<open>
  The successive values of \<^verbatim>\<open>cur\<close> that the loop of \<^verbatim>\<open>build_ranges\<close> hands to
  \<^verbatim>\<open>finalize\<close>, in order: the runs into which the loop cuts the sorted detections.
  It is used to reason about \<^const>\<open>build_loop\<close>; the loop itself is the definition above.
\<close>

fun group_runs :: "BlackFrameHit list \<Rightarrow> BlackFrameHit list \<Rightarrow> BlackFrameHit list list" where
  "group_runs cur [] = [cur]"
| "group_runs cur (h # rest) =
     (if frame h = frame (last cur) + 1 then group_runs (cur @ [h]) rest
      else cur # group_runs [h] rest)"

section \<open>Text of the process streams\<close>

text \<open>
  A Python \<^verbatim>\<open>str\<close> is a \<^typ>\<open>string\<close>. The character classes of the regular
  expressions (\<^verbatim>\<open>\d\<close>, \<^verbatim>\<open>\w\<close>, \<^verbatim>\<open>\s\<close>) are given for ASCII text, which is what
  the two tools print; characters outside ASCII belong to none of the classes here.
\<close>

abbreviation newline :: char where "newline \<equiv> CHR 0x0A"
abbreviation carriage_return :: char where "carriage_return \<equiv> CHR 0x0D"

text \<open>\<^verbatim>\<open>s.split(sep)\<close> for a one-character separator: never an empty list.\<close>

fun split_char :: "char \<Rightarrow> string \<Rightarrow> string list" where
  "split_char sep [] = [Nil]"
| "split_char sep (c # cs) =
     (if c = sep then [] # split_char sep cs
      else (case split_char sep cs of
              [] \<Rightarrow> [c # Nil]
            | p # ps \<Rightarrow> (c # p) # ps))"

text \<open>\<^verbatim>\<open>line.rstrip("\r")\<close>: every trailing carriage return goes, not only one.\<close>

definition rstrip_cr :: "string \<Rightarrow> string" where
  "rstrip_cr line = rev (dropWhile (\<lambda>c. c = carriage_return) (rev line))"

definition split_complete_lines :: "string \<Rightarrow> string list \<times> string" where
  "split_complete_lines buf =
     (if newline \<notin> set buf then ([], buf)
      else
        let parts = split_char newline buf;
            complete = butlast parts;
            remainder = last parts;
            complete = map rstrip_cr (filter (\<lambda>line. line \<noteq> []) complete)
        in (complete, remainder))"

text \<open>
  What both stream handlers do with a chunk: \<^verbatim>\<open>buf += chunk\<close>, then
  \<^verbatim>\<open>lines, buf = _split_complete_lines(buf)\<close>. \<open>feed_all\<close> repeats it over the chunks
  of a stream and collects the lines in the order they were returned.
\<close>

definition feed :: "string \<Rightarrow> string \<Rightarrow> string list \<times> string" where
  "feed buf chunk = split_complete_lines (buf @ chunk)"

fun feed_all :: "string \<Rightarrow> string list \<Rightarrow> string list \<times> string" where
  "feed_all buf [] = ([], buf)"
| "feed_all buf (chunk # chunks) =
     (case feed buf chunk of
        (ls, buf') \<Rightarrow> (case feed_all buf' chunks of
                         (later, remainder) \<Rightarrow> (ls @ later, remainder)))"

text \<open>
  The reconstruction the round-trip property speaks of: every complete line followed by
  its line separator, then the remainder.
\<close>

definition rejoin :: "string list \<Rightarrow> string \<Rightarrow> string" where
  "rejoin ls remainder = concat (map (\<lambda>line. line @ [newline]) ls) @ remainder"

definition is_digit :: "char \<Rightarrow> bool" where
  "is_digit c = (c \<in> set ''0123456789'')"

definition is_word :: "char \<Rightarrow> bool" where
  "is_word c =
     (c \<in> set ''abcdefghijklmnopqrstuvwxyzABCDEFGHIJKLMNOPQRSTUVWXYZ0123456789_'')"

definition is_space :: "char \<Rightarrow> bool" where
  "is_space c =
     (c \<in> set [CHR 0x20, CHR 0x09, CHR 0x0A, CHR 0x0B, CHR 0x0C, CHR 0x0D,
                CHR 0x1C, CHR 0x1D, CHR 0x1E, CHR 0x1F])"

definition digit_val :: "char \<Rightarrow> int" where
  "digit_val c = int (of_char c) - 48"

text \<open>\<^verbatim>\<open>int(text)\<close> on a run of decimal digits.\<close>

definition int_of_digits :: "string \<Rightarrow> int" where
  "int_of_digits ds = foldl (\<lambda>acc c. 10 * acc + digit_val c) 0 ds"




text \<open>
  \<^verbatim>\<open>float(text)\<close> on text of the shape \<^verbatim>\<open>\d+(?:\.\d+)?\<close>, given as its integer and
  fraction digits: the rational the decimal denotes.
\<close>

definition decimal_value :: "string \<Rightarrow> string \<Rightarrow> rat" where
  "decimal_value ip fp = of_int (int_of_digits ip) + of_int (int_of_digits fp) / 10 ^ length fp"

text \<open>
  \<^verbatim>\<open>PROGRESS_OUT_TIME_MS_RE = ^out_time_ms=(\d+)\s*$\<close> and
  \<^verbatim>\<open>PROGRESS_END_RE = ^progress=end\s*$\<close>, applied with \<^verbatim>\<open>match\<close>. The first returns
  group 1.
\<close>

definition match_out_time_ms :: "string \<Rightarrow> string option" where
  "match_out_time_ms line =
     (let key = ''out_time_ms=''
      in if take (length key) line = key
         then
           let rest = drop (length key) line;
               ds = takeWhile is_digit rest;
               after = dropWhile is_digit rest
           in if ds \<noteq> [] \<and> list_all is_space after then Some ds else None
         else None)"

definition match_progress_end :: "string \<Rightarrow> bool" where
  "match_progress_end line =
     (let key = ''progress=end''
      in take (length key) line = key \<and> list_all is_space (drop (length key) line))"

text \<open>
  \<^verbatim>\<open>BLACKFRAME_LINE_RE\<close>. \<open>scan_field tok w text\<close> is the piece \<^verbatim>\<open>.*?\btok(?=\d)\<close>: the
  lazy skip stops at the first place where \<open>tok\<close> starts at a word boundary and a digit
  follows, and it cannot cross a newline. \<open>w\<close> says whether the character before the
  current position is a word character; every token starts with a letter, so the
  boundary \<^verbatim>\<open>\b\<close> holds exactly when \<open>w\<close> is false. The result is the text after the
  token.
\<close>

fun scan_field :: "string \<Rightarrow> bool \<Rightarrow> string \<Rightarrow> string option" where
  "scan_field tok w [] = None"
| "scan_field tok w (c # cs) =
     (if \<not> w \<and> take (length tok) (c # cs) = tok
           \<and> (case drop (length tok) (c # cs) of [] \<Rightarrow> False | d # _ \<Rightarrow> is_digit d)
      then Some (drop (length tok) (c # cs))
      else if c = newline then None
      else scan_field tok (is_word c) cs)"

text \<open>\<^verbatim>\<open>(\d+)\<close> and \<^verbatim>\<open>(\d+(?:\.\d+)?)\<close> at the head of a text, with what follows the match.\<close>

definition take_int :: "string \<Rightarrow> int \<times> string" where
  "take_int text = (int_of_digits (takeWhile is_digit text), dropWhile is_digit text)"

definition take_decimal :: "string \<Rightarrow> rat \<times> string" where
  "take_decimal text =
     (let ip = takeWhile is_digit text;
          rest = dropWhile is_digit text
      in case rest of
           c # d # ds \<Rightarrow>
             if c = CHR ''.'' \<and> is_digit d
             then (decimal_value ip (takeWhile is_digit (d # ds)), dropWhile is_digit (d # ds))
             else (decimal_value ip [], rest)
         | _ \<Rightarrow> (decimal_value ip [], rest))"

text \<open>
  The optional groups \<^verbatim>\<open>(?:.*?\bpblack:(...))?\<close>, \<^verbatim>\<open>(?:.*?\bpts:(...))?\<close> and
  \<^verbatim>\<open>(?:.*?\bt:(...))?\<close>: each is tried from where the previous match ended (after a
  digit, hence \<open>w = True\<close>) and skipped when its token does not occur further on.
\<close>

definition opt_decimal :: "string \<Rightarrow> string \<Rightarrow> rat option \<times> string" where
  "opt_decimal tok text =
     (case scan_field tok True text of
        None \<Rightarrow> (None, text)
      | Some r \<Rightarrow> (case take_decimal r of (v, rest) \<Rightarrow> (Some v, rest)))"

definition opt_int :: "string \<Rightarrow> string \<Rightarrow> int option \<times> string" where
  "opt_int tok text =
     (case scan_field tok True text of
        None \<Rightarrow> (None, text)
      | Some r \<Rightarrow> (case take_int r of (v, rest) \<Rightarrow> (Some v, rest)))"

text \<open>The expression matched at the start of a text, and \<^verbatim>\<open>search\<close>: the leftmost match.\<close>

definition match_blackframe :: "string \<Rightarrow> BlackFrameHit option" where
  "match_blackframe text =
     (let lit = ''Parsed_blackframe''
      in if take (length lit) text \<noteq> lit then None
         else (case scan_field ''frame:'' True (drop (length lit) text) of
                 None \<Rightarrow> None
               | Some r1 \<Rightarrow>
                   (case take_int r1 of (fr, r2) \<Rightarrow>
                    case opt_decimal ''pblack:'' r2 of (pb, r3) \<Rightarrow>
                    case opt_int ''pts:'' r3 of (ps, r4) \<Rightarrow>
                    case opt_decimal ''t:'' r4 of (t, r5) \<Rightarrow>
                      Some \<lparr>frame = fr, time_s = t, pblack = pb, pts = ps\<rparr>)))"

fun parse_blackframe_line :: "string \<Rightarrow> BlackFrameHit option" where
  "parse_blackframe_line [] = match_blackframe []"
| "parse_blackframe_line (c # cs) =
     (case match_blackframe (c # cs) of
        Some hit \<Rightarrow> Some hit
      | None \<Rightarrow> parse_blackframe_line cs)"

section \<open>Probe metadata\<close>

text \<open>
  The value \<^verbatim>\<open>json.loads\<close> returns. An object lists each key once, as the decoded
  \<^verbatim>\<open>dict\<close> holds it. The standard output of the probe, after \<^verbatim>\<open>strip()\<close>, is empty,
  or text that \<^verbatim>\<open>json.loads\<close> rejects, or a decoded document.
\<close>

datatype json =
    JNull
  | JBool bool
  | JNum rat
  | JStr string
  | JArr "json list"
  | JObj "(string \<times> json) list"

datatype probe_output = NoOutput | NotJson | Report json

datatype py_error =
    ZeroDivisionError
  | IndexError
  | KeyError
  | ValueError
  | TypeError
  | AttributeError
  | JSONDecodeError

text \<open>Truth value of a decoded JSON value, as \<^verbatim>\<open>or\<close> and \<^verbatim>\<open>if\<close> test it.\<close>

fun truthy :: "json \<Rightarrow> bool" where
  "truthy JNull = False"
| "truthy (JBool b) = b"
| "truthy (JNum r) = (r \<noteq> 0)"
| "truthy (JStr s) = (s \<noteq> [])"
| "truthy (JArr xs) = (xs \<noteq> [])"
| "truthy (JObj kvs) = (kvs \<noteq> [])"

text \<open>
  \<^verbatim>\<open>float(x)\<close> on a decoded value. Python's reading of a string as a float is the
  parameter \<open>float_of_str\<close> (\<open>None\<close> where \<^verbatim>\<open>float\<close> raises \<^verbatim>\<open>ValueError\<close>), so that
  nothing here depends on which spellings \<^verbatim>\<open>float\<close> accepts.
\<close>

fun py_float :: "(string \<Rightarrow> rat option) \<Rightarrow> json \<Rightarrow> py_error + rat" where
  "py_float float_of_str (JStr s) =
     (case float_of_str s of None \<Rightarrow> Inl ValueError | Some r \<Rightarrow> Inr r)"
| "py_float float_of_str (JNum r) = Inr r"
| "py_float float_of_str (JBool b) = Inr (if b then 1 else 0)"
| "py_float float_of_str JNull = Inl TypeError"
| "py_float float_of_str (JArr xs) = Inl TypeError"
| "py_float float_of_str (JObj kvs) = Inl TypeError"

text \<open>
  One reading of \<^verbatim>\<open>float\<close>: plain decimals \<^verbatim>\<open>digits[.digits]\<close>, the way the probe
  prints numbers. It serves as a concrete instance of the parameter.
\<close>

definition float_of_decimal :: "string \<Rightarrow> rat option" where
  "float_of_decimal s =
     (if s \<noteq> [] \<and> is_digit (hd s) \<and> snd (take_decimal s) = []
      then Some (fst (take_decimal s)) else None)"

text \<open>
  \<^verbatim>\<open>duration = data.get("format", {}).get("duration", None)\<close> and
  \<^verbatim>\<open>float(duration) if duration is not None else None\<close>.
\<close>

definition probe_duration :: "(string \<Rightarrow> rat option) \<Rightarrow> json \<Rightarrow> py_error + rat option" where
  "probe_duration float_of_str data =
     (case data of
        JObj kvs \<Rightarrow>
          (case (case map_of kvs ''format'' of None \<Rightarrow> JObj [] | Some v \<Rightarrow> v) of
             JObj fmt \<Rightarrow>
               (case map_of fmt ''duration'' of
                  None \<Rightarrow> Inr None
                | Some JNull \<Rightarrow> Inr None
                | Some duration \<Rightarrow>
                    (case py_float float_of_str duration of
                       Inl e \<Rightarrow> Inl e
                     | Inr r \<Rightarrow> Inr (Some r)))
           | _ \<Rightarrow> Inl AttributeError)
      | _ \<Rightarrow> Inl AttributeError)"

text \<open>
  \<^verbatim>\<open>num, den = rate.split("/")\<close> and
  \<^verbatim>\<open>float(num) / float(den) if float(den) != 0 else None\<close>: the condition is evaluated
  first, \<^verbatim>\<open>float(num)\<close> only when it holds.
\<close>

definition fps_of_rate :: "(string \<Rightarrow> rat option) \<Rightarrow> string \<Rightarrow> py_error + rat option" where
  "fps_of_rate float_of_str rate =
     (case split_char CHR ''/'' rate of
        [num, den] \<Rightarrow>
          (case float_of_str den of
             None \<Rightarrow> Inl ValueError
           | Some d \<Rightarrow>
               if d \<noteq> 0
               then (case float_of_str num of
                       None \<Rightarrow> Inl ValueError
                     | Some n \<Rightarrow> Inr (Some (n / d)))
               else Inr None)
      | _ \<Rightarrow> Inl ValueError)"

text \<open>
  \<^verbatim>\<open>stream = data["streams"][0]\<close> and
  \<^verbatim>\<open>rate = stream.get("avg_frame_rate") or stream.get("r_frame_rate") or "0/0"\<close>.
\<close>

definition probe_rate :: "json \<Rightarrow> py_error + json" where
  "probe_rate data =
     (case data of
        JObj kvs \<Rightarrow>
          (case map_of kvs ''streams'' of
             None \<Rightarrow> Inl KeyError
           | Some (JArr []) \<Rightarrow> Inl IndexError
           | Some (JArr (JObj stream # _)) \<Rightarrow>
               (let a = (case map_of stream ''avg_frame_rate'' of None \<Rightarrow> JNull | Some v \<Rightarrow> v);
                    r = (case map_of stream ''r_frame_rate'' of None \<Rightarrow> JNull | Some v \<Rightarrow> v)
                in Inr (if truthy a then a else if truthy r then r else JStr ''0/0''))
           | Some (JArr (_ # _)) \<Rightarrow> Inl AttributeError
           | Some (JStr []) \<Rightarrow> Inl IndexError
           | Some (JStr (_ # _)) \<Rightarrow> Inl AttributeError
           | Some (JObj _) \<Rightarrow> Inl KeyError
           | Some _ \<Rightarrow> Inl TypeError)
      | _ \<Rightarrow> Inl TypeError)"

definition probe_fps :: "(string \<Rightarrow> rat option) \<Rightarrow> json \<Rightarrow> py_error + rat option" where
  "probe_fps float_of_str data =
     (case probe_rate data of
        Inl e \<Rightarrow> Inl e
      | Inr (JStr rate) \<Rightarrow> fps_of_rate float_of_str rate
      | Inr _ \<Rightarrow> Inl AttributeError)"

section \<open>The window object and its queue\<close>

text \<open>
  The fields of \<^verbatim>\<open>BlackFrameDetectorV2\<close> that the queue logic reads or writes, under the
  source's names without the leading underscore. The two result dictionaries are
  association lists, updated as a \<^verbatim>\<open>dict\<close> is (\<^const>\<open>AList.update\<close> keeps the position of
  a key that is already there) and read with \<^const>\<open>map_of\<close>. Wall-clock time enters as an
  argument \<open>now\<close> where the source calls \<^verbatim>\<open>time.time()\<close>.

  Widgets are represented by the values the logic gives them: the rows of the file list
  (\<open>file_list\<close>, the path each row carries) and the note written on a row, the progress
  bar (value, determinate or busy, format text), the lines of the status label, the two
  tables, the range checkbox and the minimum-run spin box. A text shown to the user is a
  constructor carrying the values the f-string interpolates; \<^verbatim>\<open>Path(path).name\<close> is
  represented by the path. Styling, enabling of controls and the export buttons are left
  out.
\<close>

datatype item_note = FailedNote string | CountNote nat

datatype status_line =
    FileFailed string string
  | FileResult string nat nat
  | Summary nat nat nat

datatype progress_text =
    Ready
  | Probing nat nat string
  | Analyzing nat nat string bool
  | Finishing nat nat string
  | EtaText nat nat string int int int
  | CancelledText nat nat
  | SummaryText nat nat nat

record BlackFrameDetectorV2 =
  file_list :: "string list"
  item_notes :: "(nat \<times> item_note) list"
  group_ranges_checked :: bool
  min_run_value :: int
  probe_proc :: "string option"
  ffmpeg_proc :: "string option"
  stderr_buf :: string
  stdout_buf :: string
  video_duration_s :: "rat option"
  video_fps :: "rat option"
  running :: bool
  analysis_start_time :: "rat option"
  queue_start_time :: "rat option"
  total_video_duration_s :: rat
  hits :: "BlackFrameHit list"
  ranges :: "BlackRange list"
  pending_hits :: "BlackFrameHit list"
  file_queue :: "string list"
  current_queue_index :: nat
  queue_active :: bool
  all_hits :: "(string \<times> BlackFrameHit list) list"
  all_ranges :: "(string \<times> BlackRange list) list"
  flush_timer_active :: bool
  progress_value :: int
  progress_determinate :: bool
  progress_format :: progress_text
  status_lines :: "status_line list"
  frames_table :: "(string \<times> BlackFrameHit) list"
  ranges_table :: "(string \<times> BlackRange) list"

text \<open>
  A slot either runs to its end or raises; the object keeps the mutations made before
  the raise, so both results carry a state.
\<close>

datatype 'a outcome = Done 'a | Raised py_error 'a

fun state_of :: "'a outcome \<Rightarrow> 'a" where
  "state_of (Done s) = s"
| "state_of (Raised e s) = s"

fun and_then :: "'a outcome \<Rightarrow> ('a \<Rightarrow> 'a outcome) \<Rightarrow> 'a outcome" where
  "and_then (Done s) f = f s"
| "and_then (Raised e s) f = Raised e s"

text \<open>\<^verbatim>\<open>int(x)\<close> on a float: truncation towards zero.\<close>

definition py_int :: "rat \<Rightarrow> int" where
  "py_int r = (if 0 \<le> r then \<lfloor>r\<rfloor> else \<lceil>r\<rceil>)"

text \<open>\<^verbatim>\<open>self.video_duration_s and self.video_duration_s > 0\<close>.\<close>

definition duration_known :: "BlackFrameDetectorV2 \<Rightarrow> bool" where
  "duration_known s =
     (case video_duration_s s of None \<Rightarrow> False | Some d \<Rightarrow> d \<noteq> 0 \<and> d > 0)"

definition append_status_line :: "status_line \<Rightarrow> BlackFrameDetectorV2 \<Rightarrow> BlackFrameDetectorV2" where
  "append_status_line line s = s\<lparr>status_lines := status_lines s @ [line]\<rparr>"

text \<open>\<^verbatim>\<open>file_list.item(index)\<close> is \<^verbatim>\<open>None\<close> past the last row, and then nothing is written.\<close>

definition mark_list_item_failed :: "nat \<Rightarrow> string \<Rightarrow> BlackFrameDetectorV2 \<Rightarrow> BlackFrameDetectorV2" where
  "mark_list_item_failed index label s =
     (if index < length (file_list s)
      then s\<lparr>item_notes := AList.update index (FailedNote label) (item_notes s)\<rparr>
      else s)"

definition render_all_frames_table :: "BlackFrameDetectorV2 \<Rightarrow> BlackFrameDetectorV2" where
  "render_all_frames_table s =
     s\<lparr>frames_table :=
         concat (map (\<lambda>path. map (Pair path)
                                (case map_of (all_hits s) path of None \<Rightarrow> [] | Some hs \<Rightarrow> hs))
                     (file_queue s))\<rparr>"

definition render_all_ranges_table :: "BlackFrameDetectorV2 \<Rightarrow> BlackFrameDetectorV2" where
  "render_all_ranges_table s =
     s\<lparr>ranges_table :=
         concat (map (\<lambda>path. map (Pair path)
                                (case map_of (all_ranges s) path of None \<Rightarrow> [] | Some rs \<Rightarrow> rs))
                     (file_queue s))\<rparr>"

definition on_all_files_finished :: "BlackFrameDetectorV2 \<Rightarrow> BlackFrameDetectorV2" where
  "on_all_files_finished s =
     (let s1 = s\<lparr>queue_active := False, running := False,
                  progress_determinate := True, progress_value := 1000\<rparr>;
          s2 = render_all_ranges_table (render_all_frames_table s1);
          total_files = length (file_queue s2);
          total_frames = sum_list (map (\<lambda>kv. length (snd kv)) (all_hits s2));
          total_ranges = sum_list (map (\<lambda>kv. length (snd kv)) (all_ranges s2))
      in append_status_line (Summary total_files total_frames total_ranges)
           (s2\<lparr>progress_format := SummaryText total_files total_frames total_ranges\<rparr>))"

text \<open>\<^verbatim>\<open>_run_ffprobe\<close> launches the probe and returns; its end arrives later as a signal.\<close>

definition run_ffprobe :: "string \<Rightarrow> BlackFrameDetectorV2 \<Rightarrow> BlackFrameDetectorV2" where
  "run_ffprobe path s = s\<lparr>probe_proc := Some path\<rparr>"

definition start_next_file :: "BlackFrameDetectorV2 \<Rightarrow> BlackFrameDetectorV2" where
  "start_next_file s =
     (if current_queue_index s \<ge> length (file_queue s) then on_all_files_finished s
      else
        let path = file_queue s ! current_queue_index s;
            idx = current_queue_index s + 1;
            total = length (file_queue s)
        in run_ffprobe path
             (s\<lparr>hits := [], ranges := [], pending_hits := [],
                stderr_buf := [], stdout_buf := [],
                video_duration_s := None, video_fps := None,
                analysis_start_time := None,
                progress_format := Probing idx total path\<rparr>))"

definition record_failure_and_advance ::
  "string \<Rightarrow> string \<Rightarrow> BlackFrameDetectorV2 \<Rightarrow> BlackFrameDetectorV2" where
  "record_failure_and_advance path label s =
     (let s1 = s\<lparr>all_hits := AList.update path [] (all_hits s),
                  all_ranges := AList.update path [] (all_ranges s)\<rparr>;
          s2 = mark_list_item_failed (current_queue_index s1) label s1;
          s3 = append_status_line (FileFailed path label) s2;
          s4 = s3\<lparr>current_queue_index := current_queue_index s3 + 1\<rparr>
      in if queue_active s4 then start_next_file s4 else s4)"

text \<open>
  \<^verbatim>\<open>_start\<close>. \<open>path_exists\<close> stands for \<^verbatim>\<open>Path(path).exists()\<close> at the time of the
  call. With no valid file a warning is shown and nothing changes.
\<close>

definition start :: "(string \<Rightarrow> bool) \<Rightarrow> rat \<Rightarrow> BlackFrameDetectorV2 \<Rightarrow> BlackFrameDetectorV2" where
  "start path_exists now s =
     (let queue = filter (\<lambda>path. path \<noteq> [] \<and> path_exists path) (file_list s)
      in if queue = [] then s
         else start_next_file
                (s\<lparr>file_queue := queue, current_queue_index := 0, queue_active := True,
                   all_hits := [], all_ranges := [],
                   hits := [], ranges := [], pending_hits := [],
                   stderr_buf := [], stdout_buf := [],
                   frames_table := [], ranges_table := [],
                   progress_determinate := True, progress_value := 0,
                   progress_format := Ready, status_lines := [],
                   item_notes := [],
                   queue_start_time := Some now, total_video_duration_s := 0,
                   running := True\<rparr>))"

text \<open>\<^verbatim>\<open>_cancel\<close>: the two \<^verbatim>\<open>kill()\<close> calls act on the processes, not on the object.\<close>

definition cancel :: "BlackFrameDetectorV2 \<Rightarrow> BlackFrameDetectorV2" where
  "cancel s =
     s\<lparr>queue_active := False, flush_timer_active := False, running := False,
       progress_format := CancelledText (current_queue_index s) (length (file_queue s))\<rparr>"

section \<open>Analysis of one file\<close>

text \<open>
  \<^verbatim>\<open>_run_ffmpeg\<close>: \<open>launch_ffmpeg\<close> is its part up to \<^verbatim>\<open>self.ffmpeg_proc.start(...)\<close>, and
  \<open>started\<close> is the result of \<^verbatim>\<open>waitForStarted(3000)\<close>.
\<close>

definition launch_ffmpeg :: "string \<Rightarrow> BlackFrameDetectorV2 \<Rightarrow> BlackFrameDetectorV2" where
  "launch_ffmpeg path s =
     (let idx = current_queue_index s + 1;
          total = length (file_queue s);
          s1 = (if duration_known s
                then s\<lparr>progress_determinate := True, progress_value := 0\<rparr>
                else s\<lparr>progress_determinate := False\<rparr>)
      in s1\<lparr>ffmpeg_proc := Some path,
             progress_format :=
               Analyzing idx total path
                 (case video_duration_s s1 of None \<Rightarrow> False | Some d \<Rightarrow> d \<noteq> 0)\<rparr>)"

definition run_ffmpeg :: "string \<Rightarrow> bool \<Rightarrow> rat \<Rightarrow> BlackFrameDetectorV2 \<Rightarrow> BlackFrameDetectorV2" where
  "run_ffmpeg path started now s =
     (let s2 = launch_ffmpeg path s
      in if \<not> started then record_failure_and_advance path ''FAILED - ffmpeg start'' s2
         else s2\<lparr>analysis_start_time := Some now, flush_timer_active := True\<rparr>)"

text \<open>
  \<^verbatim>\<open>_on_ffprobe_finished\<close>. \<open>read_probe_metadata\<close> is its \<^verbatim>\<open>try\<close> block with the
  \<^verbatim>\<open>except\<close> clause: the block assigns the duration and adds it to the total before it
  reads the frame rate; an exception anywhere in the block leaves both metadata fields
  \<^verbatim>\<open>None\<close>, and the total as it then is.
\<close>

definition read_probe_metadata ::
  "(string \<Rightarrow> rat option) \<Rightarrow> probe_output \<Rightarrow> BlackFrameDetectorV2 \<Rightarrow> BlackFrameDetectorV2" where
  "read_probe_metadata float_of_str out s =
     (let failed = s\<lparr>video_duration_s := None, video_fps := None\<rparr>
      in case out of
           Report data \<Rightarrow>
             (case probe_duration float_of_str data of
                Inl e \<Rightarrow> failed
              | Inr duration \<Rightarrow>
                  let sd = s\<lparr>video_duration_s := duration\<rparr>;
                      st = (case duration of
                              None \<Rightarrow> sd
                            | Some d \<Rightarrow>
                                if d \<noteq> 0
                                then sd\<lparr>total_video_duration_s := total_video_duration_s sd + d\<rparr>
                                else sd)
                  in (case probe_fps float_of_str data of
                        Inl e \<Rightarrow> st\<lparr>video_duration_s := None, video_fps := None\<rparr>
                      | Inr fps \<Rightarrow> st\<lparr>video_fps := fps\<rparr>))
         | _ \<Rightarrow> failed)"

definition on_ffprobe_finished ::
  "(string \<Rightarrow> rat option) \<Rightarrow> string \<Rightarrow> int \<Rightarrow> probe_output \<Rightarrow> bool \<Rightarrow> rat
     \<Rightarrow> BlackFrameDetectorV2 \<Rightarrow> BlackFrameDetectorV2" where
  "on_ffprobe_finished float_of_str path exit_code out started now s =
     (if probe_proc s = None then s
      else if exit_code \<noteq> 0 \<or> out = NoOutput
      then record_failure_and_advance path ''FAILED - probe'' s
      else run_ffmpeg path started now (read_probe_metadata float_of_str out s))"

text \<open>
  \<^verbatim>\<open>_flush_pending_hits\<close>, also the slot of the flush timer. The batch is taken off the
  queue before the file name is looked up.
\<close>

definition flush_pending_hits :: "BlackFrameDetectorV2 \<Rightarrow> BlackFrameDetectorV2 outcome" where
  "flush_pending_hits s =
     (if pending_hits s = [] then Done s
      else
        let n = min 500 (length (pending_hits s));
            batch = take n (pending_hits s);
            s1 = s\<lparr>pending_hits := drop n (pending_hits s)\<rparr>
        in if current_queue_index s1 < length (file_queue s1)
           then Done (s1\<lparr>frames_table :=
                           frames_table s1
                           @ map (Pair (file_queue s1 ! current_queue_index s1)) batch\<rparr>)
           else Raised IndexError s1)"

text \<open>
  \<^verbatim>\<open>_update_progress_eta\<close>, in two parts: the remaining time it computes (\<open>None\<close> where
  it returns before computing one), and the text it then sets. The text shows the
  remaining time as minutes and seconds.
\<close>

definition eta_remaining :: "rat \<Rightarrow> rat option \<Rightarrow> rat \<Rightarrow> rat option" where
  "eta_remaining frac' analysis_start now =
     (case analysis_start of
        None \<Rightarrow> None
      | Some t0 \<Rightarrow>
          if frac' \<le> 0 then None
          else
            let elapsed = now - t0
            in if elapsed < 1 / 2 then None
               else
                 let estimated_total = elapsed / frac';
                     remaining = max 0 (estimated_total - elapsed)
                 in Some remaining)"

definition update_progress_eta :: "rat \<Rightarrow> rat \<Rightarrow> BlackFrameDetectorV2 \<Rightarrow> BlackFrameDetectorV2 outcome" where
  "update_progress_eta frac' now s =
     (case eta_remaining frac' (analysis_start_time s) now of
        None \<Rightarrow> Done s
      | Some remaining \<Rightarrow>
          if current_queue_index s < length (file_queue s)
          then
            let idx = current_queue_index s + 1;
                total = length (file_queue s);
                filename = file_queue s ! current_queue_index s;
                remaining_min = \<lfloor>remaining / 60\<rfloor>;
                remaining_sec = \<lfloor>remaining - 60 * of_int \<lfloor>remaining / 60\<rfloor>\<rfloor>;
                pct = py_int (frac' * 100)
            in Done (s\<lparr>progress_format := EtaText idx total filename pct remaining_min remaining_sec\<rparr>)
          else Raised IndexError s)"

text \<open>
  The fraction of \<^verbatim>\<open>_on_ffmpeg_stdout_chunk\<close>:
  \<^verbatim>\<open>dur_us = int(self.video_duration_s * 1_000_000)\<close> and
  \<^verbatim>\<open>frac = max(0.0, min(1.0, out_time_us / dur_us))\<close>. Dividing by zero raises.
\<close>

definition progress_fraction :: "rat \<Rightarrow> int \<Rightarrow> py_error + rat" where
  "progress_fraction duration_s out_time_us =
     (let dur_us = py_int (duration_s * 1000000)
      in if dur_us = 0 then Inl ZeroDivisionError
         else Inr (max 0 (min 1 (of_int out_time_us / of_int dur_us))))"

text \<open>The body of \<^verbatim>\<open>for line in lines\<close> in \<^verbatim>\<open>_on_ffmpeg_stdout_chunk\<close>.\<close>

definition stdout_line :: "rat \<Rightarrow> string \<Rightarrow> BlackFrameDetectorV2 \<Rightarrow> BlackFrameDetectorV2 outcome" where
  "stdout_line now line s =
     (case (if duration_known s then match_out_time_ms line else None) of
        Some digits \<Rightarrow>
          (case video_duration_s s of
             None \<Rightarrow> Done s
           | Some duration_s \<Rightarrow>
               (case progress_fraction duration_s (int_of_digits digits) of
                  Inl e \<Rightarrow> Raised e s
                | Inr frac' \<Rightarrow>
                    update_progress_eta frac' now (s\<lparr>progress_value := py_int (frac' * 1000)\<rparr>)))
      | None \<Rightarrow>
          if match_progress_end line
          then if duration_known s
               then if current_queue_index s < length (file_queue s)
                    then Done (s\<lparr>progress_value := 1000,
                                 progress_format :=
                                   Finishing (current_queue_index s + 1) (length (file_queue s))
                                     (file_queue s ! current_queue_index s)\<rparr>)
                    else Raised IndexError (s\<lparr>progress_value := 1000\<rparr>)
               else Done s
          else Done s)"

fun stdout_lines :: "rat \<Rightarrow> string list \<Rightarrow> BlackFrameDetectorV2 \<Rightarrow> BlackFrameDetectorV2 outcome" where
  "stdout_lines now [] s = Done s"
| "stdout_lines now (line # rest) s = and_then (stdout_line now line s) (stdout_lines now rest)"

definition on_ffmpeg_stdout_chunk :: "string \<Rightarrow> rat \<Rightarrow> BlackFrameDetectorV2 \<Rightarrow> BlackFrameDetectorV2 outcome" where
  "on_ffmpeg_stdout_chunk chunk now s =
     (if ffmpeg_proc s = None then Done s
      else (case split_complete_lines (stdout_buf s @ chunk) of
              (ls, remainder) \<Rightarrow> stdout_lines now ls (s\<lparr>stdout_buf := remainder\<rparr>)))"

text \<open>
  The loop of \<^verbatim>\<open>_on_ffmpeg_stderr_chunk\<close>, used again for the tail in
  \<^verbatim>\<open>_on_ffmpeg_finished\<close>: every line that parses is appended to \<^verbatim>\<open>hits\<close> and to
  \<^verbatim>\<open>_pending_hits\<close>.
\<close>

fun stderr_lines :: "string list \<Rightarrow> BlackFrameDetectorV2 \<Rightarrow> BlackFrameDetectorV2" where
  "stderr_lines [] s = s"
| "stderr_lines (line # rest) s =
     (case parse_blackframe_line line of
        Some hit \<Rightarrow> stderr_lines rest (s\<lparr>hits := hits s @ [hit], pending_hits := pending_hits s @ [hit]\<rparr>)
      | None \<Rightarrow> stderr_lines rest s)"

definition on_ffmpeg_stderr_chunk :: "string \<Rightarrow> BlackFrameDetectorV2 \<Rightarrow> BlackFrameDetectorV2" where
  "on_ffmpeg_stderr_chunk chunk s =
     (if ffmpeg_proc s = None then s
      else (case split_complete_lines (stderr_buf s @ chunk) of
              (ls, remainder) \<Rightarrow> stderr_lines ls (s\<lparr>stderr_buf := remainder\<rparr>)))"

text \<open>
  \<^verbatim>\<open>_on_ffmpeg_finished\<close>, in the order of the source: stop the timer and flush, push the
  stderr remainder through the parser and flush again, then look at the exit code. The
  stdout remainder is not read here.
\<close>

definition flush_stderr_tail :: "BlackFrameDetectorV2 \<Rightarrow> BlackFrameDetectorV2 outcome" where
  "flush_stderr_tail s =
     (if stderr_buf s \<noteq> []
      then
        let tail_lines = [rstrip_cr (stderr_buf s)]
        in flush_pending_hits (stderr_lines tail_lines (s\<lparr>stderr_buf := []\<rparr>))
      else Done s)"

definition store_results :: "string \<Rightarrow> BlackFrameDetectorV2 \<Rightarrow> BlackFrameDetectorV2" where
  "store_results path s =
     (let hits_sorted = sort_key frame (hits s);
          rs = (if group_ranges_checked s then build_ranges hits_sorted (min_run_value s) else []);
          s1 = s\<lparr>all_hits := AList.update path hits_sorted (all_hits s),
                  all_ranges := AList.update path rs (all_ranges s),
                  hits := [], ranges := []\<rparr>;
          count = length hits_sorted;
          s2 = (if current_queue_index s1 < length (file_list s1)
                then s1\<lparr>item_notes := AList.update (current_queue_index s1) (CountNote count) (item_notes s1)\<rparr>
                else s1);
          s3 = append_status_line (FileResult path count (length rs)) s2;
          s4 = s3\<lparr>current_queue_index := current_queue_index s3 + 1\<rparr>
      in if queue_active s4 \<and> current_queue_index s4 < length (file_queue s4)
         then start_next_file s4
         else on_all_files_finished s4)"

definition on_ffmpeg_finished :: "string \<Rightarrow> int \<Rightarrow> BlackFrameDetectorV2 \<Rightarrow> BlackFrameDetectorV2 outcome" where
  "on_ffmpeg_finished path exit_code s =
     and_then (flush_pending_hits (s\<lparr>flush_timer_active := False\<rparr>))
       (\<lambda>s1. and_then (flush_stderr_tail s1)
          (\<lambda>s2. if exit_code \<noteq> 0
                then Done (record_failure_and_advance path ''FAILED'' s2)
                else Done (store_results path s2)))"

section \<open>A batch as the sequence of signals it receives\<close>

text \<open>
  The slots above are driven by the event loop. A process that did not start sends no
  end signal. For one queued file the loop delivers, if the probe process started, the
  end of the probe; if the probe was accepted and the analysis process started, any
  number of stream chunks and timer ticks; and then the end of the analysis process. An
  exception that leaves a slot ends that slot only: the loop goes on with the object as the
  slot left it. \<open>file_run\<close> records what the tools and the clock did for one file,
  \<open>run_file\<close> delivers it, and \<open>run_batch\<close> does so for the files of the queue in turn,
  without a cancel in between.

  \<^verbatim>\<open>_run_ffprobe\<close> connects the \<^verbatim>\<open>finished\<close> signal only. When the probe process does not
  start, no slot of the object is ever called for that file: the object stays as it is,
  and so no later file receives a signal either.
\<close>

datatype stream_event =
    StdoutChunk string rat
  | StderrChunk string
  | TimerTick

record file_run =
  probe_started :: bool
  probe_exit_code :: int
  probe_stdout :: probe_output
  ffmpeg_started :: bool
  ffmpeg_start_time :: rat
  ffmpeg_events :: "stream_event list"
  ffmpeg_exit_code :: int

fun deliver :: "stream_event \<Rightarrow> BlackFrameDetectorV2 \<Rightarrow> BlackFrameDetectorV2" where
  "deliver (StdoutChunk chunk now) s = state_of (on_ffmpeg_stdout_chunk chunk now s)"
| "deliver (StderrChunk chunk) s = on_ffmpeg_stderr_chunk chunk s"
| "deliver TimerTick s = state_of (flush_pending_hits s)"

definition probe_rejected :: "file_run \<Rightarrow> bool" where
  "probe_rejected r = (probe_exit_code r \<noteq> 0 \<or> probe_stdout r = NoOutput)"

definition file_failed :: "file_run \<Rightarrow> bool" where
  "file_failed r =
     (\<not> probe_started r \<or> probe_rejected r \<or> \<not> ffmpeg_started r \<or> ffmpeg_exit_code r \<noteq> 0)"

definition failure_label :: "file_run \<Rightarrow> string" where
  "failure_label r =
     (if probe_rejected r then ''FAILED - probe''
      else if \<not> ffmpeg_started r then ''FAILED - ffmpeg start''
      else ''FAILED'')"

definition run_file ::
  "(string \<Rightarrow> rat option) \<Rightarrow> file_run \<Rightarrow> BlackFrameDetectorV2 \<Rightarrow> BlackFrameDetectorV2" where
  "run_file float_of_str r s =
     (if \<not> probe_started r then s
      else
        let path = file_queue s ! current_queue_index s;
            s1 = on_ffprobe_finished float_of_str path (probe_exit_code r) (probe_stdout r)
                   (ffmpeg_started r) (ffmpeg_start_time r) s
        in if probe_rejected r \<or> \<not> ffmpeg_started r then s1
           else state_of (on_ffmpeg_finished path (ffmpeg_exit_code r)
                            (foldl (\<lambda>st e. deliver e st) s1 (ffmpeg_events r))))"

fun run_batch ::
  "(string \<Rightarrow> rat option) \<Rightarrow> file_run list \<Rightarrow> BlackFrameDetectorV2 \<Rightarrow> BlackFrameDetectorV2" where
  "run_batch float_of_str [] s = s"
| "run_batch float_of_str (r # rs) s =
     (if queue_active s \<and> current_queue_index s < length (file_queue s)
      then if probe_started r
           then run_batch float_of_str rs (run_file float_of_str r s)
           else run_file float_of_str r s
      else s)"

text \<open>Whether a slot raised, and what.\<close>

fun raised :: "'a outcome \<Rightarrow> py_error option" where
  "raised (Done s) = None"
| "raised (Raised e s) = Some e"

text \<open>
  The object as \<^verbatim>\<open>__init__\<close> leaves it: nothing queued, the range checkbox checked, a
  minimum run of 1, a progress bar that shows \<^verbatim>\<open>Ready\<close> and has no value yet.
  \<^verbatim>\<open>_add_files_to_list\<close> appends the paths that no row carries yet.
\<close>

definition init :: BlackFrameDetectorV2 where
  "init =
     \<lparr>file_list = [], item_notes = [], group_ranges_checked = True, min_run_value = 1,
      probe_proc = None, ffmpeg_proc = None, stderr_buf = [], stdout_buf = [],
      video_duration_s = None, video_fps = None, running = False,
      analysis_start_time = None, queue_start_time = None, total_video_duration_s = 0,
      hits = [], ranges = [], pending_hits = [],
      file_queue = [], current_queue_index = 0, queue_active = False,
      all_hits = [], all_ranges = [], flush_timer_active = False,
      progress_value = - 1, progress_determinate = True, progress_format = Ready,
      status_lines = [], frames_table = [], ranges_table = []\<rparr>"

fun add_files_to_list :: "string list \<Rightarrow> BlackFrameDetectorV2 \<Rightarrow> BlackFrameDetectorV2" where
  "add_files_to_list [] s = s"
| "add_files_to_list (p # paths) s =
     (if p \<in> set (file_list s) then add_files_to_list paths s
      else add_files_to_list paths (s\<lparr>file_list := file_list s @ [p]\<rparr>))"

text \<open>
  The part of the object that decides where the queue stands. The slots of the two
  streams and of the flush timer leave it alone.
\<close>

definition queue_view ::
  "BlackFrameDetectorV2 \<Rightarrow> string list \<times> nat \<times> bool \<times> bool \<times> string option \<times> string list" where
  "queue_view s =
     (file_queue s, current_queue_index s, queue_active s, running s, probe_proc s, file_list s)"

section \<open>Concrete inputs\<close>

text \<open>
  The report the probe prints for the entries the source asks for
  (\<^verbatim>\<open>format=duration:stream=avg_frame_rate,r_frame_rate\<close>, as JSON), and the object in the
  middle of analysing the first of the given files: the files were added to the list, all
  exist, the batch was started at time 0, the probe of the first file ended with exit code 0
  and the given duration, and the analysis process started at time 1.
\<close>

definition probe_report :: "string \<Rightarrow> string \<Rightarrow> json" where
  "probe_report duration rate =
     JObj [(''streams'', JArr [JObj [(''avg_frame_rate'', JStr rate), (''r_frame_rate'', JStr rate)]]),
           (''format'', JObj [(''duration'', JStr duration)])]"

definition analysing :: "string list \<Rightarrow> string \<Rightarrow> BlackFrameDetectorV2" where
  "analysing paths duration =
     on_ffprobe_finished float_of_decimal (hd paths) 0 (Report (probe_report duration ''25/1''))
       True 1 (start (\<lambda>p. True) 0 (add_files_to_list paths init))"

text \<open>
  What the tools do for a file that goes well: the probe starts and reports 5 seconds at
  25 frames per second, the analysis starts, prints one detection on stderr and ends with
  code 0.
\<close>

definition clean_run :: file_run where
  "clean_run =
     \<lparr>probe_started = True,
      probe_exit_code = 0,
      probe_stdout = Report (probe_report ''5.000000'' ''25/1''),
      ffmpeg_started = True,
      ffmpeg_start_time = 1,
      ffmpeg_events =
        [StderrChunk (''[Parsed_blackframe_0 @ 0x1] frame:3 pblack:100 pts:3 t:0.12'' @ [newline])],
      ffmpeg_exit_code = 0\<rparr>"

section \<open>Properties of range building\<close>

lemma build_loop_group_runs:
  "build_loop m cur acc hs = acc @ List.map_filter (finalize m) (group_runs cur hs)"
  by (induction hs arbitrary: cur acc) (simp_all add: Let_def split: option.splits)

lemma concat_group_runs: "concat (group_runs cur hs) = cur @ hs"
  by (induction hs arbitrary: cur) simp_all

lemma group_runs_nonempty: "cur \<noteq> [] \<Longrightarrow> [] \<notin> set (group_runs cur hs)"
  by (induction hs arbitrary: cur) auto

lemma group_runs_consecutive:
  "successively (\<lambda>a b. frame b = frame a + 1) cur \<Longrightarrow> cur \<noteq> [] \<Longrightarrow> g \<in> set (group_runs cur hs) \<Longrightarrow> successively (\<lambda>a b. frame b = frame a + 1) g"
proof (induction hs arbitrary: cur)
  case Nil then show ?case by simp
next
  case (Cons h rest)
  show ?case
  proof (cases "frame h = frame (last cur) + 1")
    case True
    have "successively (\<lambda>a b. frame b = frame a + 1) (cur @ [h])"
      using Cons.prems(1,2) True by (simp add: successively_append_iff)
    with Cons True show ?thesis by simp
  next
    case False
    with Cons.prems(3) have "g = cur \<or> g \<in> set (group_runs [h] rest)" by simp
    then show ?thesis
      using Cons.prems(1) Cons.IH[of "[h]"] by auto
  qed
qed

lemma hd_group_runs: "cur \<noteq> [] \<Longrightarrow> hd (hd (group_runs cur hs)) = hd cur"
  by (induction hs arbitrary: cur) auto

lemma group_runs_not_Nil: "group_runs cur hs \<noteq> []"
  by (induction hs arbitrary: cur) auto

lemma group_runs_maximal:
  "cur \<noteq> [] \<Longrightarrow> successively (\<lambda>a b. frame (hd b) \<noteq> frame (last a) + 1) (group_runs cur hs)"
proof (induction hs arbitrary: cur)
  case Nil then show ?case by simp
next
  case (Cons h rest)
  show ?case
  proof (cases "frame h = frame (last cur) + 1")
    case True
    with Cons show ?thesis by simp
  next
    case False
    have "hd (hd (group_runs [h] rest)) = h" by (simp add: hd_group_runs)
    with False Cons.IH[of "[h]"] show ?thesis
      by (simp add: successively_Cons group_runs_not_Nil)
  qed
qed



lemma finalize_Some:
  assumes "finalize m g = Some r"
  shows "g \<noteq> []" 
    and "start_frame r = frame (hd g)" 
    and "end_frame r = frame (last g)"
    and "length_frames r = frame (last g) - frame (hd g) + 1"
    and "m \<le> length_frames r"
    and "start_time_s r = time_s (hd g)"
    and "end_time_s r = time_s (last g)"
    and "avg_pblack r = (if List.map_filter pblack g = [] then None
            else Some (sum_list (List.map_filter pblack g) / of_nat (length (List.map_filter pblack g))))"
    and "min_pblack r = (if List.map_filter pblack g = [] then None
            else Some (Min (set (List.map_filter pblack g))))"
  using assms by (auto simp: finalize_def Let_def min_list_Min split: if_splits)

lemma build_ranges_runs:
  "ds \<noteq> [] \<Longrightarrow> build_ranges ds m =
     List.map_filter (finalize m) (group_runs [hd (sort_key frame ds)] (tl (sort_key frame ds)))"
  by (simp add: build_ranges_def build_loop_group_runs Let_def)

lemma sort_key_not_Nil: "ds \<noteq> [] \<Longrightarrow> sort_key f ds \<noteq> []"
  by (metis length_sort length_0_conv)

lemma concat_runs_sorted:
  "ds \<noteq> [] \<Longrightarrow> concat (group_runs [hd (sort_key frame ds)] (tl (sort_key frame ds))) = sort_key frame ds"
  by (simp add: concat_group_runs sort_key_not_Nil)

lemma set_map_filter_iff: "r \<in> set (List.map_filter f xs) \<longleftrightarrow> (\<exists>x \<in> set xs. f x = Some r)"
  by (induction xs) (auto simp: List.map_filter_simps split: option.splits)

lemma sorted_wrt_map_filter:
  assumes "sorted_wrt R xs"
    and "\<And>x y a b. R x y \<Longrightarrow> f x = Some a \<Longrightarrow> f y = Some b \<Longrightarrow> Q a b"
  shows "sorted_wrt Q (List.map_filter f xs)"
  using assms(1)
proof (induction xs)
  case Nil then show ?case by (simp add: List.map_filter_simps)
next
  case (Cons x xs)
  then have IH: "sorted_wrt Q (List.map_filter f xs)" and Rx: "\<forall>y\<in>set xs. R x y" by simp_all
  show ?case
  proof (cases "f x")
    case None
    with IH show ?thesis by (simp add: List.map_filter_simps)
  next
    case (Some a)
    have "\<forall>b\<in>set (List.map_filter f xs). Q a b"
    proof
      fix b assume "b \<in> set (List.map_filter f xs)"
      then obtain y where "y \<in> set xs" "f y = Some b" by (auto simp: set_map_filter_iff)
      with Rx Some show "Q a b" using assms(2)[of x y a b] by blast
    qed
    with IH Some show ?thesis by (simp add: List.map_filter_simps)
  qed
qed

lemma sorted_wrt_concat_groups:
  "sorted_wrt P (concat gs) \<Longrightarrow> sorted_wrt (\<lambda>a b. \<forall>x\<in>set a. \<forall>y\<in>set b. P x y) gs"
  by (induction gs) (auto simp: sorted_wrt_append)

lemma build_ranges_sorted_gen:
  assumes "sorted_wrt (\<lambda>x y. R (frame x) (frame y)) (sort_key frame ds)"
  shows "sorted_wrt (\<lambda>a b. R (start_frame a) (start_frame b) \<and> R (end_frame a) (start_frame b))
           (build_ranges ds m)"
proof (cases "ds = []")
  case True then show ?thesis by (simp add: build_ranges_def)
next
  case False
  let ?gs = "group_runs [hd (sort_key frame ds)] (tl (sort_key frame ds))"
  have "sorted_wrt (\<lambda>a b. \<forall>x\<in>set a. \<forall>y\<in>set b. R (frame x) (frame y)) ?gs"
    using assms concat_runs_sorted[OF False] sorted_wrt_concat_groups[of _ ?gs] by simp
  then have "sorted_wrt (\<lambda>a b. R (start_frame a) (start_frame b) \<and> R (end_frame a) (start_frame b))
               (List.map_filter (finalize m) ?gs)"
  proof (rule sorted_wrt_map_filter)
    fix x y a b
    assume xy: "\<forall>u\<in>set x. \<forall>v\<in>set y. R (frame u) (frame v)"
      and a: "finalize m x = Some a" and b: "finalize m y = Some b"
    have "last x \<in> set x" "hd x \<in> set x" "hd y \<in> set y"
      using finalize_Some(1)[OF a] finalize_Some(1)[OF b] by simp_all
    with xy have "R (frame (hd x)) (frame (hd y))" "R (frame (last x)) (frame (hd y))" by blast+
    then show "R (start_frame a) (start_frame b) \<and> R (end_frame a) (start_frame b)"
      by (simp add: finalize_Some(3)[OF a] finalize_Some(2)[OF a] finalize_Some(2)[OF b])
  qed
  then show ?thesis by (simp add: build_ranges_runs[OF False])
qed

lemma sorted_frames: "sorted_wrt (\<lambda>x y. frame x \<le> frame y) (sort_key frame ds)"
  using sorted_sort_key[of frame ds] by (simp add: sorted_wrt_map)

lemma strict_sorted_frames:
  assumes "distinct (map frame ds)"
  shows "sorted_wrt (\<lambda>x y. frame x < frame y) (sort_key frame ds)"
proof -
  have "distinct (map frame (sort_key frame ds))"
    using assms by (metis distinct_map distinct_sort set_sort)
  then have "sorted_wrt (<) (map frame (sort_key frame ds))"
    using sorted_sort_key[of frame ds] by (simp add: strict_sorted_iff)
  then show ?thesis by (simp add: sorted_wrt_map)
qed



lemma concat_nonempty_groups:
  assumes "[] \<notin> set gs" "gs \<noteq> []"
  shows "concat gs \<noteq> []" "hd (concat gs) = hd (hd gs)" "last (concat gs) = last (last gs)"
proof -
  from assms(2) obtain g gs' where gs: "gs = g # gs'" by (cases gs) auto
  with assms(1) have g: "g \<noteq> []" by auto
  show "concat gs \<noteq> []" "hd (concat gs) = hd (hd gs)" using gs g by simp_all
  from assms(2) obtain gs'' l where gl: "gs = gs'' @ [l]" by (cases gs rule: rev_cases) auto
  with assms(1) have "l \<noteq> []" by auto
  then show "last (concat gs) = last (last gs)" using gl by simp
qed

lemma run_decomposition:
  assumes ne: "ds \<noteq> []"
    and g: "g \<in> set (group_runs [hd (sort_key frame ds)] (tl (sort_key frame ds)))"
  shows "\<exists>pre post. sort_key frame ds = pre @ g @ post \<and> g \<noteq> []
           \<and> successively (\<lambda>a b. frame b = frame a + 1) g
           \<and> (pre \<noteq> [] \<longrightarrow> frame (hd g) \<noteq> frame (last pre) + 1)
           \<and> (post \<noteq> [] \<longrightarrow> frame (hd post) \<noteq> frame (last g) + 1)"
proof -
  let ?gs = "group_runs [hd (sort_key frame ds)] (tl (sort_key frame ds))"
  from g obtain gs1 gs2 where split: "?gs = gs1 @ g # gs2" by (auto simp: in_set_conv_decomp)
  have nonempty: "[] \<notin> set ?gs" by (rule group_runs_nonempty) simp
  then have g_ne: "g \<noteq> []" and n1: "[] \<notin> set gs1" and n2: "[] \<notin> set gs2"
    using split by auto
  have consec: "successively (\<lambda>a b. frame b = frame a + 1) g"
    using group_runs_consecutive[OF _ _ g] by simp
  have "successively (\<lambda>a b. frame (hd b) \<noteq> frame (last a) + 1) ?gs"
    by (rule group_runs_maximal) simp
  then have maxi: "successively (\<lambda>a b. frame (hd b) \<noteq> frame (last a) + 1) (gs1 @ g # gs2)"
    using split by simp
  have left: "gs1 \<noteq> [] \<longrightarrow> frame (hd g) \<noteq> frame (last (last gs1)) + 1"
    using maxi by (auto simp: successively_append_iff)
  have right: "gs2 \<noteq> [] \<longrightarrow> frame (hd (hd gs2)) \<noteq> frame (last g) + 1"
    using maxi by (auto simp: successively_append_iff successively_Cons)
  have cat: "sort_key frame ds = concat gs1 @ g @ concat gs2"
    using concat_runs_sorted[OF ne] split by simp
  have pre: "concat gs1 \<noteq> [] \<longrightarrow> frame (hd g) \<noteq> frame (last (concat gs1)) + 1"
  proof
    assume "concat gs1 \<noteq> []"
    then have "gs1 \<noteq> []" by auto
    with left concat_nonempty_groups(3)[OF n1] show "frame (hd g) \<noteq> frame (last (concat gs1)) + 1"
      by simp
  qed
  have post: "concat gs2 \<noteq> [] \<longrightarrow> frame (hd (concat gs2)) \<noteq> frame (last g) + 1"
  proof
    assume "concat gs2 \<noteq> []"
    then have "gs2 \<noteq> []" by auto
    with right concat_nonempty_groups(2)[OF n2] show "frame (hd (concat gs2)) \<noteq> frame (last g) + 1"
      by simp
  qed
  from cat g_ne consec pre post show ?thesis by blast
qed

text \<open>
  Claim C7. Every range that \<^const>\<open>build_ranges\<close> returns comes from a run of the sorted
  detections: a non-empty stretch of consecutive frame numbers that cannot be extended
  on either side. Its average blackness is the arithmetic mean of the blackness values
  that are present in that run, and its minimum is the least of them; both are absent when
  no detection of the run has a value. An empty detection list gives an empty range list.
\<close>

theorem build_ranges_blackness:
  "build_ranges [] m = [] \<and>
   (\<forall>r\<in>set (build_ranges ds m). \<exists>pre run post.
      sort_key frame ds = pre @ run @ post \<and> run \<noteq> []
      \<and> successively (\<lambda>a b. frame b = frame a + 1) run
      \<and> (pre \<noteq> [] \<longrightarrow> frame (hd run) \<noteq> frame (last pre) + 1)
      \<and> (post \<noteq> [] \<longrightarrow> frame (hd post) \<noteq> frame (last run) + 1)
      \<and> start_frame r = frame (hd run) \<and> end_frame r = frame (last run)
      \<and> avg_pblack r =
           (let pvals = map (the \<circ> pblack) (filter (\<lambda>h. pblack h \<noteq> None) run)
            in if pvals = [] then None else Some (sum_list pvals / of_nat (length pvals)))
      \<and> min_pblack r =
           (let pvals = map (the \<circ> pblack) (filter (\<lambda>h. pblack h \<noteq> None) run)
            in if pvals = [] then None else Some (Min (set pvals))))"
proof (intro conjI ballI)
  show "build_ranges [] m = []" by (simp add: build_ranges_def)
next
  fix r assume r: "r \<in> set (build_ranges ds m)"
  then have ne: "ds \<noteq> []" by (auto simp: build_ranges_def)
  from r obtain g where g: "g \<in> set (group_runs [hd (sort_key frame ds)] (tl (sort_key frame ds)))"
    and fin: "finalize m g = Some r"
    by (auto simp: build_ranges_runs[OF ne] set_map_filter_iff)
  from run_decomposition[OF ne g] obtain pre post where
    d: "sort_key frame ds = pre @ g @ post" "g \<noteq> []"
       "successively (\<lambda>a b. frame b = frame a + 1) g"
       "pre \<noteq> [] \<longrightarrow> frame (hd g) \<noteq> frame (last pre) + 1"
       "post \<noteq> [] \<longrightarrow> frame (hd post) \<noteq> frame (last g) + 1"
    by blast
  have pv: "map (the \<circ> pblack) (filter (\<lambda>h. pblack h \<noteq> None) g) = List.map_filter pblack g"
    by (simp add: List.map_filter_def)
  show "\<exists>pre run post.
      sort_key frame ds = pre @ run @ post \<and> run \<noteq> []
      \<and> successively (\<lambda>a b. frame b = frame a + 1) run
      \<and> (pre \<noteq> [] \<longrightarrow> frame (hd run) \<noteq> frame (last pre) + 1)
      \<and> (post \<noteq> [] \<longrightarrow> frame (hd post) \<noteq> frame (last run) + 1)
      \<and> start_frame r = frame (hd run) \<and> end_frame r = frame (last run)
      \<and> avg_pblack r =
           (let pvals = map (the \<circ> pblack) (filter (\<lambda>h. pblack h \<noteq> None) run)
            in if pvals = [] then None else Some (sum_list pvals / of_nat (length pvals)))
      \<and> min_pblack r =
           (let pvals = map (the \<circ> pblack) (filter (\<lambda>h. pblack h \<noteq> None) run)
            in if pvals = [] then None else Some (Min (set pvals)))"
    apply (rule exI[of _ pre], rule exI[of _ g], rule exI[of _ post])
    using d finalize_Some(2,3,8,9)[OF fin]
    by (simp only: pv Let_def) simp
qed

text \<open>
  Claim C3, as amended. Every range satisfies
  \<open>length_frames = end_frame - start_frame + 1\<close> and \<open>length_frames \<ge> min_run_frames\<close>,
  the ranges are sorted by start frame, and a single detection gives a range of length 1
  when \<open>min_run_frames = 1\<close>. The ranges do not overlap when no two detections share a
  frame number.
\<close>

theorem build_ranges_invariants:
  "(\<forall>r\<in>set (build_ranges ds m).
       length_frames r = end_frame r - start_frame r + 1 \<and> m \<le> length_frames r)
   \<and> sorted (map start_frame (build_ranges ds m))
   \<and> (distinct (map frame ds) \<longrightarrow>
        sorted_wrt (\<lambda>a b. end_frame a < start_frame b) (build_ranges ds m))
   \<and> map length_frames (build_ranges [h] 1) = [1]"
proof (intro conjI ballI impI)
  fix r assume r: "r \<in> set (build_ranges ds m)"
  then have ne: "ds \<noteq> []" by (auto simp: build_ranges_def)
  from r obtain g where fin: "finalize m g = Some r"
    by (auto simp: build_ranges_runs[OF ne] set_map_filter_iff)
  show "length_frames r = end_frame r - start_frame r + 1"
    using finalize_Some(2,3,4)[OF fin] by simp
  show "m \<le> length_frames r" by (rule finalize_Some(5)[OF fin])
next
  have "sorted_wrt (\<lambda>a b. start_frame a \<le> start_frame b \<and> end_frame a \<le> start_frame b)
          (build_ranges ds m)"
    by (rule build_ranges_sorted_gen[where R = "(\<le>)"]) (rule sorted_frames)
  then have "sorted_wrt (\<lambda>a b. start_frame a \<le> start_frame b) (build_ranges ds m)"
    by (rule sorted_wrt_mono_rel[rotated]) simp
  then show "sorted (map start_frame (build_ranges ds m))"
    by (simp add: sorted_wrt_map)
next
  assume "distinct (map frame ds)"
  then have "sorted_wrt (\<lambda>a b. start_frame a < start_frame b \<and> end_frame a < start_frame b)
          (build_ranges ds m)"
    by (intro build_ranges_sorted_gen[where R = "(<)"] strict_sorted_frames)
  then show "sorted_wrt (\<lambda>a b. end_frame a < start_frame b) (build_ranges ds m)"
    by (rule sorted_wrt_mono_rel[rotated]) simp
next
  show "map length_frames (build_ranges [h] 1) = [1]"
    by (simp add: build_ranges_def finalize_def Let_def)
qed

text \<open>
  Claim C5. Detections at frames 10, 11, 12, 15, 16, whatever their other fields: with
  \<open>min_run_frames = 1\<close> the ranges are 10-12 of length 3 and 15-16 of length 2, in that
  order; with \<open>min_run_frames = 3\<close> the only range is 10-12.
\<close>

theorem build_ranges_example:
  assumes "map frame ds = [10, 11, 12, 15, 16]"
  shows "map (\<lambda>r. (start_frame r, end_frame r, length_frames r)) (build_ranges ds 1)
           = [(10, 12, 3), (15, 16, 2)]
       \<and> map (\<lambda>r. (start_frame r, end_frame r, length_frames r)) (build_ranges ds 3)
           = [(10, 12, 3)]"
proof -
  from assms obtain a b c d e where ds: "ds = [a, b, c, d, e]"
    and fr: "frame a = 10" "frame b = 11" "frame c = 12" "frame d = 15" "frame e = 16"
    by (auto simp: map_eq_Cons_conv)
  have sorted: "sort_key frame ds = ds"
    by (rule sort_key_id_if_sorted) (simp add: assms)
  show ?thesis
    unfolding build_ranges_def sorted Let_def
    by (simp add: ds fr finalize_def Let_def)
qed



lemmas eval_ranges = build_ranges_def finalize_def Let_def List.map_filter_simps

text \<open>
  Two detections of frame 5 and one of frame 6: the loop closes the run at the repeated
  frame, and the two ranges it returns both contain frame 5.
\<close>

theorem build_ranges_overlap_counterexample:
  "build_ranges
     [\<lparr>frame = 5, time_s = None, pblack = None, pts = None\<rparr>,
      \<lparr>frame = 5, time_s = None, pblack = None, pts = None\<rparr>,
      \<lparr>frame = 6, time_s = None, pblack = None, pts = None\<rparr>] 1
   = [\<lparr>start_frame = 5, end_frame = 5, start_time_s = None, end_time_s = None,
        length_frames = 1, avg_pblack = None, min_pblack = None\<rparr>,
      \<lparr>start_frame = 5, end_frame = 6, start_time_s = None, end_time_s = None,
        length_frames = 2, avg_pblack = None, min_pblack = None\<rparr>]"
  by (simp add: eval_ranges)

text \<open>The invariants at detections of frames 10, 11 and 13.\<close>

theorem build_ranges_invariants_witness:
  "distinct (map frame
     [\<lparr>frame = 10, time_s = None, pblack = None, pts = None\<rparr>,
      \<lparr>frame = 11, time_s = None, pblack = None, pts = None\<rparr>,
      \<lparr>frame = 13, time_s = None, pblack = None, pts = None\<rparr>])
   \<and> \<lparr>start_frame = 10, end_frame = 11, start_time_s = None, end_time_s = None,
        length_frames = 2, avg_pblack = None, min_pblack = None\<rparr>
       \<in> set (build_ranges
            [\<lparr>frame = 10, time_s = None, pblack = None, pts = None\<rparr>,
             \<lparr>frame = 11, time_s = None, pblack = None, pts = None\<rparr>,
             \<lparr>frame = 13, time_s = None, pblack = None, pts = None\<rparr>] 1)
   \<and> sorted_wrt (\<lambda>a b. end_frame a < start_frame b)
         (build_ranges
            [\<lparr>frame = 10, time_s = None, pblack = None, pts = None\<rparr>,
             \<lparr>frame = 11, time_s = None, pblack = None, pts = None\<rparr>,
             \<lparr>frame = 13, time_s = None, pblack = None, pts = None\<rparr>] 1)
   \<and> sorted (map start_frame
         (build_ranges
            [\<lparr>frame = 10, time_s = None, pblack = None, pts = None\<rparr>,
             \<lparr>frame = 11, time_s = None, pblack = None, pts = None\<rparr>,
             \<lparr>frame = 13, time_s = None, pblack = None, pts = None\<rparr>] 1))"
proof -
  let ?hs = "[\<lparr>frame = 10, time_s = None, pblack = None, pts = None\<rparr>,
             \<lparr>frame = 11, time_s = None, pblack = None, pts = None\<rparr>,
             \<lparr>frame = 13, time_s = None, pblack = None, pts = None\<rparr>]"
  have d: "distinct (map frame ?hs)" by simp
  have m: "\<lparr>start_frame = 10, end_frame = 11, start_time_s = None, end_time_s = None,
        length_frames = 2, avg_pblack = None, min_pblack = None\<rparr> \<in> set (build_ranges ?hs 1)"
    by (simp add: eval_ranges)
  from build_ranges_invariants[of ?hs 1] d m show ?thesis by blast
qed

text \<open>The example at five concrete detections.\<close>

theorem build_ranges_example_witness:
  "map frame
     [\<lparr>frame = 10, time_s = Some 0, pblack = Some 100, pts = Some 0\<rparr>,
      \<lparr>frame = 11, time_s = None, pblack = None, pts = None\<rparr>,
      \<lparr>frame = 12, time_s = None, pblack = Some 98, pts = None\<rparr>,
      \<lparr>frame = 15, time_s = None, pblack = None, pts = None\<rparr>,
      \<lparr>frame = 16, time_s = None, pblack = None, pts = None\<rparr>] = [10, 11, 12, 15, 16]
   \<and> map (\<lambda>r. (start_frame r, end_frame r, length_frames r))
       (build_ranges
         [\<lparr>frame = 10, time_s = Some 0, pblack = Some 100, pts = Some 0\<rparr>,
          \<lparr>frame = 11, time_s = None, pblack = None, pts = None\<rparr>,
          \<lparr>frame = 12, time_s = None, pblack = Some 98, pts = None\<rparr>,
          \<lparr>frame = 15, time_s = None, pblack = None, pts = None\<rparr>,
          \<lparr>frame = 16, time_s = None, pblack = None, pts = None\<rparr>] 3) = [(10, 12, 3)]"
  using build_ranges_example[of
         "[\<lparr>frame = 10, time_s = Some 0, pblack = Some 100, pts = Some 0\<rparr>,
          \<lparr>frame = 11, time_s = None, pblack = None, pts = None\<rparr>,
          \<lparr>frame = 12, time_s = None, pblack = Some 98, pts = None\<rparr>,
          \<lparr>frame = 15, time_s = None, pblack = None, pts = None\<rparr>,
          \<lparr>frame = 16, time_s = None, pblack = None, pts = None\<rparr>]"]
  by simp

text \<open>
  Frames 12, 10, 11 with blackness 98, 100 and none: one range 10-12 with mean 99 and
  minimum 98.
\<close>

theorem build_ranges_blackness_witness:
  "\<lparr>start_frame = 10, end_frame = 12, start_time_s = None, end_time_s = None,
        length_frames = 3, avg_pblack = Some 99, min_pblack = Some 98\<rparr>
     \<in> set (build_ranges
         [\<lparr>frame = 12, time_s = None, pblack = Some 98, pts = None\<rparr>,
          \<lparr>frame = 10, time_s = None, pblack = Some 100, pts = None\<rparr>,
          \<lparr>frame = 11, time_s = None, pblack = None, pts = None\<rparr>] 1)
   \<and> (\<exists>pre run post.
         sort_key frame
           [\<lparr>frame = 12, time_s = None, pblack = Some 98, pts = None\<rparr>,
            \<lparr>frame = 10, time_s = None, pblack = Some 100, pts = None\<rparr>,
            \<lparr>frame = 11, time_s = None, pblack = None, pts = None\<rparr>] = pre @ run @ post
         \<and> frame (hd run) = 10 \<and> frame (last run) = 12
         \<and> (let pvals = map (the \<circ> pblack) (filter (\<lambda>h. pblack h \<noteq> None) run)
              in if pvals = [] then None else Some (sum_list pvals / of_nat (length pvals))) = Some 99
         \<and> (let pvals = map (the \<circ> pblack) (filter (\<lambda>h. pblack h \<noteq> None) run)
              in if pvals = [] then None else Some (Min (set pvals))) = Some 98)"
proof -
  let ?hs = "[\<lparr>frame = 12, time_s = None, pblack = Some 98, pts = None\<rparr>,
            \<lparr>frame = 10, time_s = None, pblack = Some 100, pts = None\<rparr>,
            \<lparr>frame = 11, time_s = None, pblack = None, pts = None\<rparr>]"
  let ?r = "\<lparr>start_frame = 10, end_frame = 12, start_time_s = None, end_time_s = None,
        length_frames = 3, avg_pblack = Some 99, min_pblack = Some 98\<rparr>"
  have m: "?r \<in> set (build_ranges ?hs 1)"
    by (simp add: eval_ranges)
  from build_ranges_blackness[of 1 ?hs] m obtain pre run post where
    "sort_key frame ?hs = pre @ run @ post"
    "start_frame ?r = frame (hd run)" "end_frame ?r = frame (last run)"
    "avg_pblack ?r = (let pvals = map (the \<circ> pblack) (filter (\<lambda>h. pblack h \<noteq> None) run)
              in if pvals = [] then None else Some (sum_list pvals / of_nat (length pvals)))"
    "min_pblack ?r = (let pvals = map (the \<circ> pblack) (filter (\<lambda>h. pblack h \<noteq> None) run)
              in if pvals = [] then None else Some (Min (set pvals)))"
    by blast
  then have "sort_key frame ?hs = pre @ run @ post
         \<and> frame (hd run) = 10 \<and> frame (last run) = 12
         \<and> (let pvals = map (the \<circ> pblack) (filter (\<lambda>h. pblack h \<noteq> None) run)
              in if pvals = [] then None else Some (sum_list pvals / of_nat (length pvals))) = Some 99
         \<and> (let pvals = map (the \<circ> pblack) (filter (\<lambda>h. pblack h \<noteq> None) run)
              in if pvals = [] then None else Some (Min (set pvals))) = Some 98"
    by simp
  with m show ?thesis by blast
qed

section \<open>Properties of the line splitter\<close>

lemma split_char_not_Nil: "split_char sep s \<noteq> []"
  by (induction s) (auto split: list.splits)

lemma split_char_no_sep: "sep \<notin> set s \<Longrightarrow> split_char sep s = [s]"
  by (induction s) auto

lemma split_char_parts_no_sep: "p \<in> set (split_char sep s) \<Longrightarrow> sep \<notin> set p"
proof (induction s arbitrary: p)
  case Nil then show ?case by simp
next
  case (Cons c cs)
  obtain q qs where q: "split_char sep cs = q # qs"
    using split_char_not_Nil[of sep cs] by (cases "split_char sep cs") auto
  show ?case
  proof (cases "c = sep")
    case True
    with Cons show ?thesis by auto
  next
    case False
    with Cons.prems q have "p = c # q \<or> p \<in> set qs" by simp
    then show ?thesis using Cons.IH[of q] Cons.IH[of p] q False by auto
  qed
qed

lemma split_char_join:
  "concat (map (\<lambda>l. l @ [sep]) (butlast (split_char sep s))) @ last (split_char sep s) = s"
proof (induction s)
  case Nil then show ?case by simp
next
  case (Cons c cs)
  obtain q qs where q: "split_char sep cs = q # qs"
    using split_char_not_Nil[of sep cs] by (cases "split_char sep cs") auto
  show ?case
  proof (cases "c = sep")
    case True
    with Cons q show ?thesis by simp
  next
    case False
    with Cons q show ?thesis by (cases qs) auto
  qed
qed

lemma split_char_append:
  "split_char sep (a @ b) =
     butlast (split_char sep a) @ split_char sep (last (split_char sep a) @ b)"
proof (induction a)
  case Nil then show ?case by simp
next
  case (Cons c cs)
  obtain q qs where q: "split_char sep cs = q # qs"
    using split_char_not_Nil[of sep cs] by (cases "split_char sep cs") auto
  show ?case
  proof (cases "c = sep")
    case True
    with Cons q show ?thesis by simp
  next
    case False
    show ?thesis
    proof (cases qs)
      case Nil
      with Cons q False show ?thesis by simp
    next
      case (Cons x xs)
      with Cons.IH q False show ?thesis by simp
    qed
  qed
qed

lemma split_complete_lines_eq:
  "split_complete_lines s =
     (map rstrip_cr (filter (\<lambda>l. l \<noteq> []) (butlast (split_char newline s))),
      last (split_char newline s))"
  by (simp add: split_complete_lines_def Let_def split_char_no_sep)

lemma remainder_no_newline: "newline \<notin> set (snd (split_complete_lines s))"
proof -
  have "last (split_char newline s) \<in> set (split_char newline s)"
    using split_char_not_Nil by simp
  then show ?thesis
    by (simp add: split_complete_lines_eq split_char_parts_no_sep)
qed

lemma split_complete_lines_append:
  "split_complete_lines (a @ b) =
     (fst (split_complete_lines a) @ fst (split_complete_lines (snd (split_complete_lines a) @ b)),
      snd (split_complete_lines (snd (split_complete_lines a) @ b)))"
  by (simp add: split_complete_lines_eq split_char_append[of newline a b]
      butlast_append split_char_not_Nil)

lemma feed_all_clean_buf:
  "newline \<notin> set buf \<Longrightarrow> feed_all buf chunks = split_complete_lines (buf @ concat chunks)"
proof (induction chunks arbitrary: buf)
  case Nil
  then show ?case by (simp add: split_complete_lines_def)
next
  case (Cons c cs)
  obtain ls b' where f: "split_complete_lines (buf @ c) = (ls, b')" by (cases "split_complete_lines (buf @ c)")
  then have "newline \<notin> set b'" using remainder_no_newline[of "buf @ c"] by simp
  then have IH: "feed_all b' cs = split_complete_lines (b' @ concat cs)" by (rule Cons.IH)
  have "split_complete_lines ((buf @ c) @ concat cs) =
          (ls @ fst (split_complete_lines (b' @ concat cs)), snd (split_complete_lines (b' @ concat cs)))"
    using split_complete_lines_append[of "buf @ c" "concat cs"] f by simp
  then show ?case using f IH by (simp add: feed_def split: prod.splits)
qed

lemma feed_all_whole:
  "chunks \<noteq> [] \<or> newline \<notin> set buf \<Longrightarrow>
     feed_all buf chunks = split_complete_lines (buf @ concat chunks)"
proof (cases chunks)
  case Nil
  assume "chunks \<noteq> [] \<or> newline \<notin> set buf"
  with Nil show ?thesis using feed_all_clean_buf[of buf "[]"] by simp
next
  case (Cons c cs)
  obtain ls b' where f: "split_complete_lines (buf @ c) = (ls, b')" by (cases "split_complete_lines (buf @ c)")
  then have "newline \<notin> set b'" using remainder_no_newline[of "buf @ c"] by simp
  then have IH: "feed_all b' cs = split_complete_lines (b' @ concat cs)" by (rule feed_all_clean_buf)
  have "split_complete_lines ((buf @ c) @ concat cs) =
          (ls @ fst (split_complete_lines (b' @ concat cs)), snd (split_complete_lines (b' @ concat cs)))"
    using split_complete_lines_append[of "buf @ c" "concat cs"] f by simp
  then show ?thesis using f IH Cons by (simp add: feed_def split: prod.splits)
qed

lemma rstrip_cr_id: "l = [] \<or> last l \<noteq> carriage_return \<Longrightarrow> rstrip_cr l = l"
  by (cases l rule: rev_cases) (auto simp: rstrip_cr_def)

lemma split_complete_lines_round_trip:
  assumes "\<forall>l\<in>set (butlast (split_char newline s)). l \<noteq> [] \<and> last l \<noteq> carriage_return"
  shows "rejoin (fst (split_complete_lines s)) (snd (split_complete_lines s)) = s"
proof -
  have "filter (\<lambda>l. l \<noteq> []) (butlast (split_char newline s)) = butlast (split_char newline s)"
    using assms by (simp add: filter_id_conv)
  moreover have "map rstrip_cr (butlast (split_char newline s)) = butlast (split_char newline s)"
    using assms by (simp add: map_idI rstrip_cr_id)
  ultimately show ?thesis
    by (simp add: split_complete_lines_eq rejoin_def split_char_join)
qed

lemma rstrip_cr_spec:
  "(\<exists>n. l = rstrip_cr l @ replicate n carriage_return)
   \<and> (rstrip_cr l = [] \<or> last (rstrip_cr l) \<noteq> carriage_return)"
proof
  let ?P = "\<lambda>c. c = carriage_return"
  let ?t = "takeWhile ?P (rev l)"
  have "\<forall>c\<in>set ?t. c = carriage_return" by (auto dest: set_takeWhileD)
  then have t: "?t = replicate (length ?t) carriage_return"
    by (simp add: replicate_length_same)
  have "rstrip_cr l @ rev ?t = rev (?t @ dropWhile ?P (rev l))"
    unfolding rstrip_cr_def by (simp only: rev_append)
  also have "\<dots> = l" by (simp only: takeWhile_dropWhile_id rev_rev_ident)
  finally have "l = rstrip_cr l @ rev ?t" by (rule sym)
  moreover have "rev ?t = replicate (length ?t) carriage_return"
    by (subst t) (simp only: rev_replicate)
  ultimately have "l = rstrip_cr l @ replicate (length ?t) carriage_return" by simp
  then show "\<exists>n. l = rstrip_cr l @ replicate n carriage_return" by blast
  show "rstrip_cr l = [] \<or> last (rstrip_cr l) \<noteq> carriage_return"
  proof (cases "dropWhile ?P (rev l)")
    case Nil
    then show ?thesis by (simp add: rstrip_cr_def)
  next
    case (Cons c cs)
    then have "\<not> ?P (hd (dropWhile ?P (rev l)))" using hd_dropWhile[of ?P "rev l"] by simp
    with Cons show ?thesis by (simp add: rstrip_cr_def)
  qed
qed

text \<open>
  Claim C2, as amended. Let the input be the buffer followed by the chunks. If no
  complete line of the input is empty or ends with a carriage return, then the returned
  lines, each followed by its newline, and the returned remainder reconstruct the input
  exactly. When at least one chunk is fed, or the buffer holds no newline (as every
  remainder does), feeding in chunks returns what splitting the whole input at once
  returns: the input is its complete lines, each followed by a newline, and then the
  remainder, none of them containing a newline; and the returned lines are, in order, the
  non-empty complete lines, each without any of its trailing carriage returns. Empty
  lines are left out.
\<close>

theorem feed_all_round_trip:
  "((\<forall>l\<in>set (butlast (split_char newline (buf @ concat chunks))).
        l \<noteq> [] \<and> last l \<noteq> carriage_return) \<longrightarrow>
      rejoin (fst (feed_all buf chunks)) (snd (feed_all buf chunks)) = buf @ concat chunks)
   \<and> (chunks \<noteq> [] \<or> newline \<notin> set buf \<longrightarrow>
        feed_all buf chunks = split_complete_lines (buf @ concat chunks)
      \<and> buf @ concat chunks
          = rejoin (butlast (split_char newline (buf @ concat chunks))) (snd (feed_all buf chunks))
      \<and> newline \<notin> set (snd (feed_all buf chunks))
      \<and> (\<forall>p\<in>set (butlast (split_char newline (buf @ concat chunks))). newline \<notin> set p)
      \<and> list_all2
           (\<lambda>out p. (\<exists>n. p = out @ replicate n carriage_return)
                     \<and> (out = [] \<or> last out \<noteq> carriage_return))
           (fst (feed_all buf chunks))
           (filter (\<lambda>p. p \<noteq> []) (butlast (split_char newline (buf @ concat chunks)))))"
proof (intro conjI impI)
  assume clean: "\<forall>l\<in>set (butlast (split_char newline (buf @ concat chunks))).
          l \<noteq> [] \<and> last l \<noteq> carriage_return"
  show "rejoin (fst (feed_all buf chunks)) (snd (feed_all buf chunks)) = buf @ concat chunks"
  proof (cases "chunks = []")
    case True
    then show ?thesis by (simp add: rejoin_def)
  next
    case False
    then have "feed_all buf chunks = split_complete_lines (buf @ concat chunks)"
      by (simp add: feed_all_whole)
    with clean show ?thesis by (simp add: split_complete_lines_round_trip)
  qed
next
  assume c: "chunks \<noteq> [] \<or> newline \<notin> set buf"
  let ?input = "buf @ concat chunks"
  let ?parts = "butlast (split_char newline ?input)"
  have whole: "feed_all buf chunks = split_complete_lines ?input"
    using c by (rule feed_all_whole)
  then show "feed_all buf chunks = split_complete_lines ?input" .
  have f: "fst (feed_all buf chunks) = map rstrip_cr (filter (\<lambda>l. l \<noteq> []) ?parts)"
    and r: "snd (feed_all buf chunks) = last (split_char newline ?input)"
    unfolding whole by (simp_all add: split_complete_lines_eq)
  show "?input = rejoin ?parts (snd (feed_all buf chunks))"
    unfolding r rejoin_def by (rule split_char_join[symmetric])
  show "newline \<notin> set (snd (feed_all buf chunks))"
    unfolding whole by (rule remainder_no_newline)
  show "\<forall>p\<in>set ?parts. newline \<notin> set p"
    by (auto dest: in_set_butlastD split_char_parts_no_sep)
  show "list_all2
           (\<lambda>out p. (\<exists>n. p = out @ replicate n carriage_return)
                     \<and> (out = [] \<or> last out \<noteq> carriage_return))
           (fst (feed_all buf chunks)) (filter (\<lambda>p. p \<noteq> []) ?parts)"
    unfolding f by (simp only: list_all2_map1 list_all2_same rstrip_cr_spec ball_triv simp_thms)
qed

lemmas eval_split = split_complete_lines_def feed_def rejoin_def rstrip_cr_def Let_def

text \<open>
  A line ending in a carriage return loses it, and an empty line is dropped: in both
  cases the reconstruction differs from the input.
\<close>

theorem split_complete_lines_round_trip_counterexample:
  "feed_all [] [''a'' @ [carriage_return, newline] @ ''b''] = ([''a''], ''b'')
   \<and> rejoin [''a''] ''b'' \<noteq> ''a'' @ [carriage_return, newline] @ ''b''
   \<and> feed_all [] [''a'' @ [newline, newline] @ ''b''] = ([''a''], ''b'')
   \<and> rejoin [''a''] ''b'' \<noteq> ''a'' @ [newline, newline] @ ''b''"
  by (simp add: eval_split)

text \<open>
  The round trip for the chunks \<^verbatim>\<open>ab\<close>, \<^verbatim>\<open>c\nd\<close>, \<^verbatim>\<open>\n\<close>, \<^verbatim>\<open>e\<close>, and the lines returned for
  the chunks \<^verbatim>\<open>a\r\r\n\<close>, \<^verbatim>\<open>\nb\r\<close>: the line \<^verbatim>\<open>a\<close> without its two carriage returns, no
  empty line, and the remainder \<^verbatim>\<open>b\r\<close> untouched.
\<close>

theorem feed_all_round_trip_witness:
  "butlast (split_char newline ([] @ concat [''ab'', ''c'' @ [newline] @ ''d'', [newline], ''e'']))
     = [''abc'', ''d'']
   \<and> feed_all [] [''ab'', ''c'' @ [newline] @ ''d'', [newline], ''e''] = ([''abc'', ''d''], ''e'')
   \<and> rejoin (fst (feed_all [] [''ab'', ''c'' @ [newline] @ ''d'', [newline], ''e'']))
            (snd (feed_all [] [''ab'', ''c'' @ [newline] @ ''d'', [newline], ''e'']))
     = [] @ concat [''ab'', ''c'' @ [newline] @ ''d'', [newline], ''e'']
   \<and> [''a'' @ [carriage_return, carriage_return, newline], [newline] @ ''b'' @ [carriage_return]] \<noteq> []
   \<and> feed_all [] [''a'' @ [carriage_return, carriage_return, newline], [newline] @ ''b'' @ [carriage_return]]
       = split_complete_lines
           ([] @ concat [''a'' @ [carriage_return, carriage_return, newline],
                        [newline] @ ''b'' @ [carriage_return]])
   \<and> feed_all [] [''a'' @ [carriage_return, carriage_return, newline], [newline] @ ''b'' @ [carriage_return]]
       = ([''a''], ''b'' @ [carriage_return])
   \<and> butlast (split_char newline
        ([] @ concat [''a'' @ [carriage_return, carriage_return, newline],
                     [newline] @ ''b'' @ [carriage_return]]))
       = [''a'' @ [carriage_return, carriage_return], []]
   \<and> list_all2
        (\<lambda>out p. (\<exists>n. p = out @ replicate n carriage_return)
                  \<and> (out = [] \<or> last out \<noteq> carriage_return))
        [''a''] [''a'' @ [carriage_return, carriage_return]]"
proof -
  let ?clean = "[''ab'', ''c'' @ [newline] @ ''d'', [newline], ''e'']"
  let ?dirty = "[''a'' @ [carriage_return, carriage_return, newline], [newline] @ ''b'' @ [carriage_return]]"
  have parts: "butlast (split_char newline ([] @ concat ?clean)) = [''abc'', ''d'']" by simp
  then have clean: "\<forall>l\<in>set (butlast (split_char newline ([] @ concat ?clean))).
          l \<noteq> [] \<and> last l \<noteq> carriage_return"
    by (simp only: parts) simp
  have ev: "feed_all [] ?clean = ([''abc'', ''d''], ''e'')"
    by (simp add: eval_split)
  from feed_all_round_trip[where chunks = ?clean and buf = "[]"] clean
  have rt: "rejoin (fst (feed_all [] ?clean)) (snd (feed_all [] ?clean)) = [] @ concat ?clean"
    by blast
  have ne: "?dirty \<noteq> []" by simp
  have evd: "feed_all [] ?dirty = ([''a''], ''b'' @ [carriage_return])"
    by (simp add: eval_split)
  have pd: "butlast (split_char newline ([] @ concat ?dirty))
              = [''a'' @ [carriage_return, carriage_return], []]"
    by simp
  note inst = feed_all_round_trip[where chunks = ?dirty and buf = "[]"]
  from inst ne have wh: "feed_all [] ?dirty = split_complete_lines ([] @ concat ?dirty)"
    by blast
  from inst ne have "list_all2
        (\<lambda>out p. (\<exists>n. p = out @ replicate n carriage_return)
                  \<and> (out = [] \<or> last out \<noteq> carriage_return))
        (fst (feed_all [] ?dirty))
        (filter (\<lambda>p. p \<noteq> []) (butlast (split_char newline ([] @ concat ?dirty))))"
    by blast
  then have la: "list_all2
        (\<lambda>out p. (\<exists>n. p = out @ replicate n carriage_return)
                  \<and> (out = [] \<or> last out \<noteq> carriage_return))
        [''a''] [''a'' @ [carriage_return, carriage_return]]"
    unfolding evd pd by simp
  from parts ev rt ne wh evd pd la show ?thesis by (intro conjI)
qed

section \<open>Properties of the probe metadata\<close>

lemmas eval_text = match_out_time_ms_def match_progress_end_def is_digit_def is_space_def
  is_word_def int_of_digits_def digit_val_def decimal_value_def take_int_def take_decimal_def
  opt_int_def opt_decimal_def match_blackframe_def float_of_decimal_def

text \<open>
  Claim C8. A frame rate text \<open>num/den\<close> whose denominator reads as zero gives an absent
  frame rate: \<open>Inr None\<close>, neither an error nor zero. In the probe handler the frame
  rate field is then \<open>None\<close>, the duration read before it is kept, and the analysis is
  launched.
\<close>

theorem zero_denominator_frame_rate:
  "(split_char CHR ''/'' rate = [num, den] \<and> float_of_str den = Some 0
      \<longrightarrow> fps_of_rate float_of_str rate = Inr None)
   \<and> (probe_proc s \<noteq> None \<and> probe_duration float_of_str data = Inr duration
        \<and> probe_rate data = Inr (JStr rate)
        \<and> split_char CHR ''/'' rate = [num, den] \<and> float_of_str den = Some 0
      \<longrightarrow> video_fps (on_ffprobe_finished float_of_str path 0 (Report data) True now s) = None
          \<and> video_duration_s (on_ffprobe_finished float_of_str path 0 (Report data) True now s)
              = duration
          \<and> ffmpeg_proc (on_ffprobe_finished float_of_str path 0 (Report data) True now s)
              = Some path)"
proof (intro conjI impI)
  assume "split_char CHR ''/'' rate = [num, den] \<and> float_of_str den = Some 0"
  then show "fps_of_rate float_of_str rate = Inr None"
    by (simp add: fps_of_rate_def)
next
  assume a: "probe_proc s \<noteq> None \<and> probe_duration float_of_str data = Inr duration
        \<and> probe_rate data = Inr (JStr rate)
        \<and> split_char CHR ''/'' rate = [num, den] \<and> float_of_str den = Some 0"
  then have fps: "probe_fps float_of_str data = Inr None"
    by (simp add: probe_fps_def fps_of_rate_def)
  let ?s' = "on_ffprobe_finished float_of_str path 0 (Report data) True now s"
  show "video_fps ?s' = None" "video_duration_s ?s' = duration" "ffmpeg_proc ?s' = Some path"
    using a fps
    by (auto simp: on_ffprobe_finished_def read_probe_metadata_def run_ffmpeg_def
        launch_ffmpeg_def Let_def split: option.splits)
qed

lemmas eval_probe = probe_duration_def probe_rate_def probe_fps_def fps_of_rate_def

lemmas eval_queue = start_def start_next_file_def run_ffprobe_def init_def Let_def

text \<open>
  The rate \<^verbatim>\<open>0/0\<close>, alone and in the report of a probe.
\<close>

theorem zero_denominator_frame_rate_witness:
  "split_char CHR ''/'' ''0/0'' = [''0'', ''0''] \<and> float_of_decimal ''0'' = Some 0
   \<and> fps_of_rate float_of_decimal ''0/0'' = Inr None
   \<and> probe_proc (start (\<lambda>p. True) 0 (add_files_to_list [''a.mp4''] init)) = Some ''a.mp4''
   \<and> probe_duration float_of_decimal
        (JObj [(''format'', JObj [(''duration'', JStr ''5.000000'')]),
               (''streams'', JArr [JObj [(''avg_frame_rate'', JStr ''0/0'')]])]) = Inr (Some 5)
   \<and> probe_rate
        (JObj [(''format'', JObj [(''duration'', JStr ''5.000000'')]),
               (''streams'', JArr [JObj [(''avg_frame_rate'', JStr ''0/0'')]])]) = Inr (JStr ''0/0'')
   \<and> video_fps (on_ffprobe_finished float_of_decimal ''a.mp4'' 0
        (Report (JObj [(''format'', JObj [(''duration'', JStr ''5.000000'')]),
               (''streams'', JArr [JObj [(''avg_frame_rate'', JStr ''0/0'')]])]))
        True 1 (start (\<lambda>p. True) 0 (add_files_to_list [''a.mp4''] init))) = None
   \<and> video_duration_s (on_ffprobe_finished float_of_decimal ''a.mp4'' 0
        (Report (JObj [(''format'', JObj [(''duration'', JStr ''5.000000'')]),
               (''streams'', JArr [JObj [(''avg_frame_rate'', JStr ''0/0'')]])]))
        True 1 (start (\<lambda>p. True) 0 (add_files_to_list [''a.mp4''] init))) = Some 5"
proof -
  let ?data = "JObj [(''format'', JObj [(''duration'', JStr ''5.000000'')]),
               (''streams'', JArr [JObj [(''avg_frame_rate'', JStr ''0/0'')]])]"
  let ?s = "start (\<lambda>p. True) 0 (add_files_to_list [''a.mp4''] init)"
  have h: "split_char CHR ''/'' ''0/0'' = [''0'', ''0''] \<and> float_of_decimal ''0'' = Some 0"
    by (simp add: eval_text)
  have p: "probe_proc ?s = Some ''a.mp4''"
    by (simp add: eval_queue)
  have d: "probe_duration float_of_decimal ?data = Inr (Some 5)"
    by (simp add: eval_probe eval_text)
  have r: "probe_rate ?data = Inr (JStr ''0/0'')"
    by (simp add: eval_probe)
  note inst = zero_denominator_frame_rate[where rate = "''0/0''" and num = "''0''" and den = "''0''"
      and float_of_str = float_of_decimal and s = ?s and data = ?data and duration = "Some 5"
      and path = "''a.mp4''" and now = 1]
  from inst h have "fps_of_rate float_of_decimal ''0/0'' = Inr None" by blast
  moreover from inst h p d r
  have "video_fps (on_ffprobe_finished float_of_decimal ''a.mp4'' 0 (Report ?data) True 1 ?s) = None
      \<and> video_duration_s (on_ffprobe_finished float_of_decimal ''a.mp4'' 0 (Report ?data) True 1 ?s) = Some 5"
    by simp
  ultimately show ?thesis using h p d r by simp
qed

section \<open>Properties of the progress estimate\<close>

text \<open>
  Claim C9. No remaining time is produced when the fraction is at most 0 or less than half
  a second has passed since the analysis started (nor when no start time is set), and the
  progress text is then left as it is. Otherwise the remaining time is
  \<open>elapsed / fraction - elapsed\<close>, floored at 0, and the progress text shows it.
\<close>

theorem eta_suppressed_or_projected:
  "eta_remaining f None now = None
   \<and> (f \<le> 0 \<or> now - begun < 1 / 2 \<longrightarrow>
        eta_remaining f (Some begun) now = None
        \<and> (analysis_start_time s = Some begun \<longrightarrow> update_progress_eta f now s = Done s))
   \<and> (0 < f \<and> 1 / 2 \<le> now - begun \<longrightarrow>
        eta_remaining f (Some begun) now = Some (max 0 ((now - begun) / f - (now - begun)))
        \<and> (analysis_start_time s = Some begun \<and> current_queue_index s < length (file_queue s) \<longrightarrow>
             update_progress_eta f now s =
               Done (s\<lparr>progress_format :=
                 EtaText (current_queue_index s + 1) (length (file_queue s))
                   (file_queue s ! current_queue_index s) (py_int (f * 100))
                   \<lfloor>max 0 ((now - begun) / f - (now - begun)) / 60\<rfloor>
                   \<lfloor>max 0 ((now - begun) / f - (now - begun))
                      - 60 * of_int \<lfloor>max 0 ((now - begun) / f - (now - begun)) / 60\<rfloor>\<rfloor>\<rparr>)))"
  by (auto simp: eta_remaining_def update_progress_eta_def Let_def)

text \<open>
  A tenth of a second after the start nothing is projected; thirty seconds after the start,
  at a quarter of the file, ninety seconds remain.
\<close>

theorem eta_suppressed_or_projected_witness:
  "(1 / 10 :: rat) - 0 < 1 / 2
   \<and> eta_remaining (1 / 4) (Some 0) (1 / 10) = None
   \<and> (0 :: rat) < 1 / 4 \<and> (1 / 2 :: rat) \<le> 30 - 0
   \<and> eta_remaining (1 / 4) (Some 0) 30 = Some 90
   \<and> eta_remaining 0 (Some 0) 30 = None"
proof -
  note inst1 = eta_suppressed_or_projected[where f = "1 / 4" and begun = 0 and now = "1 / 10"]
  note inst2 = eta_suppressed_or_projected[where f = "1 / 4" and begun = 0 and now = 30]
  note inst3 = eta_suppressed_or_projected[where f = 0 and begun = 0 and now = 30]
  have a: "(1 / 10 :: rat) - 0 < 1 / 2" by simp
  have b: "(0 :: rat) < 1 / 4 \<and> (1 / 2 :: rat) \<le> 30 - 0" by simp
  from inst1 a have "eta_remaining (1 / 4) (Some 0) (1 / 10) = None" by blast
  moreover from inst2 b have "eta_remaining (1 / 4) (Some 0) 30 = Some (max 0 ((30 - 0) / (1 / 4) - (30 - 0)))"
    by blast
  then have "eta_remaining (1 / 4) (Some 0) 30 = Some 90" by simp
  moreover from inst3 have "eta_remaining 0 (Some 0) 30 = None" by simp
  ultimately show ?thesis using a b by simp
qed


section \<open>Progress lines in a running analysis\<close>

lemmas eval_slots = on_ffprobe_finished_def read_probe_metadata_def run_ffmpeg_def
  launch_ffmpeg_def duration_known_def
  record_failure_and_advance_def mark_list_item_failed_def append_status_line_def
  on_all_files_finished_def render_all_frames_table_def render_all_ranges_table_def
  on_ffmpeg_stdout_chunk_def stdout_line_def progress_fraction_def py_int_def
  update_progress_eta_def eta_remaining_def on_ffmpeg_stderr_chunk_def
  flush_pending_hits_def flush_stderr_tail_def store_results_def on_ffmpeg_finished_def
  analysing_def probe_report_def











lemma floor_three_halves [simp]: "\<lfloor>3 / 2 :: rat\<rfloor> = 1"
  by (simp add: floor_eq_iff)

lemma floor_two_thousand_thirds [simp]: "\<lfloor>2000 / 3 :: rat\<rfloor> = 666"
  by (simp add: floor_eq_iff)




lemma floor_half [simp]: "\<lfloor>1 / 2 :: rat\<rfloor> = 0"
  by (simp add: floor_eq_iff)


section \<open>The end of the analysis process\<close>

lemma parse_blackframe_line_Nil [simp]: "parse_blackframe_line [] = None"
  by (simp add: match_blackframe_def)

lemma flush_pending_hits_fields:
  "hits (state_of (flush_pending_hits s)) = hits s"
  "stderr_buf (state_of (flush_pending_hits s)) = stderr_buf s"
  "stdout_buf (state_of (flush_pending_hits s)) = stdout_buf s"
  "file_queue (state_of (flush_pending_hits s)) = file_queue s"
  "file_list (state_of (flush_pending_hits s)) = file_list s"
  "current_queue_index (state_of (flush_pending_hits s)) = current_queue_index s"
  "queue_active (state_of (flush_pending_hits s)) = queue_active s"
  "all_hits (state_of (flush_pending_hits s)) = all_hits s"
  "all_ranges (state_of (flush_pending_hits s)) = all_ranges s"
  "status_lines (state_of (flush_pending_hits s)) = status_lines s"
  "progress_value (state_of (flush_pending_hits s)) = progress_value s"
  "progress_format (state_of (flush_pending_hits s)) = progress_format s"
  "probe_proc (state_of (flush_pending_hits s)) = probe_proc s"
  "ffmpeg_proc (state_of (flush_pending_hits s)) = ffmpeg_proc s"
  "running (state_of (flush_pending_hits s)) = running s"
  "video_duration_s (state_of (flush_pending_hits s)) = video_duration_s s"
  "group_ranges_checked (state_of (flush_pending_hits s)) = group_ranges_checked s"
  "min_run_value (state_of (flush_pending_hits s)) = min_run_value s"
  by (simp_all add: flush_pending_hits_def Let_def)

lemma flush_pending_hits_raised:
  "current_queue_index s < length (file_queue s) \<Longrightarrow> raised (flush_pending_hits s) = None"
  by (simp add: flush_pending_hits_def Let_def)

lemma outcome_Done: "raised r = None \<Longrightarrow> r = Done (state_of r)"
  by (cases r) simp_all

lemma stderr_lines_fields:
  "stderr_buf (stderr_lines ls s) = stderr_buf s"
  "stdout_buf (stderr_lines ls s) = stdout_buf s"
  "file_queue (stderr_lines ls s) = file_queue s"
  "file_list (stderr_lines ls s) = file_list s"
  "current_queue_index (stderr_lines ls s) = current_queue_index s"
  "queue_active (stderr_lines ls s) = queue_active s"
  "all_hits (stderr_lines ls s) = all_hits s"
  "all_ranges (stderr_lines ls s) = all_ranges s"
  "status_lines (stderr_lines ls s) = status_lines s"
  "progress_value (stderr_lines ls s) = progress_value s"
  "progress_format (stderr_lines ls s) = progress_format s"
  "probe_proc (stderr_lines ls s) = probe_proc s"
  "ffmpeg_proc (stderr_lines ls s) = ffmpeg_proc s"
  "running (stderr_lines ls s) = running s"
  "video_duration_s (stderr_lines ls s) = video_duration_s s"
  "group_ranges_checked (stderr_lines ls s) = group_ranges_checked s"
  "min_run_value (stderr_lines ls s) = min_run_value s"
  by (induction ls arbitrary: s; simp split: option.splits)+

lemma hits_stderr_lines:
  "hits (stderr_lines ls s) = hits s @ List.map_filter parse_blackframe_line ls"
  by (induction ls arbitrary: s) (simp_all add: List.map_filter_simps split: option.splits)

lemma flush_stderr_tail_fields:
  "file_queue (state_of (flush_stderr_tail s)) = file_queue s"
  "file_list (state_of (flush_stderr_tail s)) = file_list s"
  "current_queue_index (state_of (flush_stderr_tail s)) = current_queue_index s"
  "queue_active (state_of (flush_stderr_tail s)) = queue_active s"
  "all_hits (state_of (flush_stderr_tail s)) = all_hits s"
  "all_ranges (state_of (flush_stderr_tail s)) = all_ranges s"
  "status_lines (state_of (flush_stderr_tail s)) = status_lines s"
  "progress_value (state_of (flush_stderr_tail s)) = progress_value s"
  "progress_format (state_of (flush_stderr_tail s)) = progress_format s"
  "probe_proc (state_of (flush_stderr_tail s)) = probe_proc s"
  "running (state_of (flush_stderr_tail s)) = running s"
  "stdout_buf (state_of (flush_stderr_tail s)) = stdout_buf s"
  "group_ranges_checked (state_of (flush_stderr_tail s)) = group_ranges_checked s"
  "min_run_value (state_of (flush_stderr_tail s)) = min_run_value s"
  by (simp_all add: flush_stderr_tail_def Let_def flush_pending_hits_fields stderr_lines_fields
        del: stderr_lines.simps)

lemma flush_stderr_tail_raised:
  "current_queue_index s < length (file_queue s) \<Longrightarrow> raised (flush_stderr_tail s) = None"
  by (simp add: flush_stderr_tail_def Let_def flush_pending_hits_raised stderr_lines_fields
        del: stderr_lines.simps)

lemma hits_flush_stderr_tail:
  "hits (state_of (flush_stderr_tail s)) =
     hits s @ (if stderr_buf s = [] then []
               else List.map_filter parse_blackframe_line [rstrip_cr (stderr_buf s)])"
  by (simp add: flush_stderr_tail_def Let_def flush_pending_hits_fields hits_stderr_lines
        del: stderr_lines.simps)

lemma all_hits_store_results:
  "map_of (all_hits (store_results path s)) path = Some (sort_key frame (hits s))"
  by (simp add: store_results_def Let_def start_next_file_def run_ffprobe_def
      on_all_files_finished_def render_all_frames_table_def render_all_ranges_table_def
      append_status_line_def update_conv')

lemma on_ffmpeg_finished_Done:
  assumes "current_queue_index s < length (file_queue s)"
  shows "on_ffmpeg_finished path exit_code s =
           Done (let s2 = state_of (flush_stderr_tail
                             (state_of (flush_pending_hits (s\<lparr>flush_timer_active := False\<rparr>))))
                 in if exit_code \<noteq> 0 then record_failure_and_advance path ''FAILED'' s2
                    else store_results path s2)"
proof -
  let ?s0 = "s\<lparr>flush_timer_active := False\<rparr>"
  have r1: "raised (flush_pending_hits ?s0) = None"
    using assms by (simp add: flush_pending_hits_raised)
  let ?s1 = "state_of (flush_pending_hits ?s0)"
  have i1: "current_queue_index ?s1 < length (file_queue ?s1)"
    using assms by (simp add: flush_pending_hits_fields)
  have r2: "raised (flush_stderr_tail ?s1) = None"
    using i1 by (rule flush_stderr_tail_raised)
  have e1: "flush_pending_hits ?s0 = Done ?s1" using r1 by (rule outcome_Done)
  have e2: "flush_stderr_tail ?s1 = Done (state_of (flush_stderr_tail ?s1))"
    using r2 by (rule outcome_Done)
  show ?thesis
    unfolding on_ffmpeg_finished_def
    by (subst e1, simp only: and_then.simps, subst e2, simp only: and_then.simps Let_def if_distrib[of Done])
qed


lemma progress_after_finish:
  "progress_value (record_failure_and_advance path label (s\<lparr>stdout_buf := b\<rparr>))
     = progress_value (record_failure_and_advance path label s)"
  "progress_format (record_failure_and_advance path label (s\<lparr>stdout_buf := b\<rparr>))
     = progress_format (record_failure_and_advance path label s)"
  "progress_value (store_results path (s\<lparr>stdout_buf := b\<rparr>))
     = progress_value (store_results path s)"
  "progress_format (store_results path (s\<lparr>stdout_buf := b\<rparr>))
     = progress_format (store_results path s)"
  by (auto simp: record_failure_and_advance_def store_results_def Let_def
      start_next_file_def run_ffprobe_def on_all_files_finished_def
      render_all_frames_table_def render_all_ranges_table_def
      append_status_line_def mark_list_item_failed_def)

lemma stdout_buf_commutes:
  "flush_pending_hits (s\<lparr>stdout_buf := b\<rparr>)
     = (case flush_pending_hits s of Done t \<Rightarrow> Done (t\<lparr>stdout_buf := b\<rparr>)
        | Raised e t \<Rightarrow> Raised e (t\<lparr>stdout_buf := b\<rparr>))"
  "stderr_lines ls (s\<lparr>stdout_buf := b\<rparr>) = (stderr_lines ls s)\<lparr>stdout_buf := b\<rparr>"
proof -
  show "flush_pending_hits (s\<lparr>stdout_buf := b\<rparr>)
     = (case flush_pending_hits s of Done t \<Rightarrow> Done (t\<lparr>stdout_buf := b\<rparr>)
        | Raised e t \<Rightarrow> Raised e (t\<lparr>stdout_buf := b\<rparr>))"
    by (simp add: flush_pending_hits_def Let_def)
  show "stderr_lines ls (s\<lparr>stdout_buf := b\<rparr>) = (stderr_lines ls s)\<lparr>stdout_buf := b\<rparr>"
  proof (induction ls arbitrary: s)
    case Nil
    show ?case by simp
  next
    case (Cons l ls)
    show ?case
    proof (cases "parse_blackframe_line l")
      case None
      then show ?thesis using Cons.IH[of s] by simp
    next
      case (Some x)
      have sw: "(s\<lparr>stdout_buf := b\<rparr>)\<lparr>hits := hits s @ [x], pending_hits := pending_hits s @ [x]\<rparr>
                 = (s\<lparr>hits := hits s @ [x], pending_hits := pending_hits s @ [x]\<rparr>)\<lparr>stdout_buf := b\<rparr>"
        by simp
      have "stderr_lines (l # ls) (s\<lparr>stdout_buf := b\<rparr>)
              = stderr_lines ls ((s\<lparr>stdout_buf := b\<rparr>)\<lparr>hits := hits s @ [x], pending_hits := pending_hits s @ [x]\<rparr>)"
        using Some by simp
      also have "\<dots> = (stderr_lines ls (s\<lparr>hits := hits s @ [x], pending_hits := pending_hits s @ [x]\<rparr>))\<lparr>stdout_buf := b\<rparr>"
        unfolding sw by (rule Cons.IH)
      also have "\<dots> = (stderr_lines (l # ls) s)\<lparr>stdout_buf := b\<rparr>"
        using Some by simp
      finally show ?thesis .
    qed
  qed
qed

lemma flush_stderr_tail_stdout_buf:
  "flush_stderr_tail (s\<lparr>stdout_buf := b\<rparr>)
     = (case flush_stderr_tail s of Done t \<Rightarrow> Done (t\<lparr>stdout_buf := b\<rparr>)
        | Raised e t \<Rightarrow> Raised e (t\<lparr>stdout_buf := b\<rparr>))"
proof -
  have "(s\<lparr>stdout_buf := b\<rparr>)\<lparr>stderr_buf := []\<rparr> = (s\<lparr>stderr_buf := []\<rparr>)\<lparr>stdout_buf := b\<rparr>"
    by simp
  then have "stderr_lines ls ((s\<lparr>stdout_buf := b\<rparr>)\<lparr>stderr_buf := []\<rparr>)
               = (stderr_lines ls (s\<lparr>stderr_buf := []\<rparr>))\<lparr>stdout_buf := b\<rparr>" for ls
    by (simp only: stdout_buf_commutes(2))
  then have "flush_pending_hits (stderr_lines ls ((s\<lparr>stdout_buf := b\<rparr>)\<lparr>stderr_buf := []\<rparr>))
               = (case flush_pending_hits (stderr_lines ls (s\<lparr>stderr_buf := []\<rparr>)) of
                    Done t \<Rightarrow> Done (t\<lparr>stdout_buf := b\<rparr>)
                  | Raised e t \<Rightarrow> Raised e (t\<lparr>stdout_buf := b\<rparr>))" for ls
    by (simp only: stdout_buf_commutes(1))
  then show ?thesis
    unfolding flush_stderr_tail_def Let_def
    by (cases "stderr_buf s = []") (simp_all del: stderr_lines.simps)
qed

lemma on_ffmpeg_finished_stdout_buf:
  "progress_value (state_of (on_ffmpeg_finished path code (s\<lparr>stdout_buf := b\<rparr>)))
     = progress_value (state_of (on_ffmpeg_finished path code s))"
  "progress_format (state_of (on_ffmpeg_finished path code (s\<lparr>stdout_buf := b\<rparr>)))
     = progress_format (state_of (on_ffmpeg_finished path code s))"
proof -
  have sw: "(s\<lparr>stdout_buf := b\<rparr>)\<lparr>flush_timer_active := False\<rparr>
              = (s\<lparr>flush_timer_active := False\<rparr>)\<lparr>stdout_buf := b\<rparr>" by simp
  show "progress_value (state_of (on_ffmpeg_finished path code (s\<lparr>stdout_buf := b\<rparr>)))
     = progress_value (state_of (on_ffmpeg_finished path code s))"
    unfolding on_ffmpeg_finished_def sw
    by (cases "flush_pending_hits (s\<lparr>flush_timer_active := False\<rparr>)";
        simp add: stdout_buf_commutes(1) flush_stderr_tail_stdout_buf;
        rename_tac t; case_tac "flush_stderr_tail t"; simp add: progress_after_finish)
  show "progress_format (state_of (on_ffmpeg_finished path code (s\<lparr>stdout_buf := b\<rparr>)))
     = progress_format (state_of (on_ffmpeg_finished path code s))"
    unfolding on_ffmpeg_finished_def sw
    by (cases "flush_pending_hits (s\<lparr>flush_timer_active := False\<rparr>)";
        simp add: stdout_buf_commutes(1) flush_stderr_tail_stdout_buf;
        rename_tac t; case_tac "flush_stderr_tail t"; simp add: progress_after_finish)
qed

text \<open>
  Claim C4, as amended. When the analysis process ends, the remainder of the stderr
  buffer is pushed through the detection parser, with trailing carriage returns stripped,
  before the exit code is looked at: a detection in an unterminated last stderr line is
  among the detections stored for the file when the exit code is 0. The remainder of the
  stdout buffer is not read: whatever it holds, the progress bar ends in the same state.
\<close>

theorem finished_flushes_stderr_tail:
  "(current_queue_index s < length (file_queue s)
      \<and> parse_blackframe_line (rstrip_cr (stderr_buf s)) = Some h \<longrightarrow>
      raised (on_ffmpeg_finished path 0 s) = None
      \<and> map_of (all_hits (state_of (on_ffmpeg_finished path 0 s))) path
          = Some (sort_key frame (hits s @ [h])))
   \<and> progress_value (state_of (on_ffmpeg_finished path code (s\<lparr>stdout_buf := b\<rparr>)))
       = progress_value (state_of (on_ffmpeg_finished path code s))
   \<and> progress_format (state_of (on_ffmpeg_finished path code (s\<lparr>stdout_buf := b\<rparr>)))
       = progress_format (state_of (on_ffmpeg_finished path code s))"
proof (intro conjI impI)
  assume a: "current_queue_index s < length (file_queue s)
      \<and> parse_blackframe_line (rstrip_cr (stderr_buf s)) = Some h"
  then have idx: "current_queue_index s < length (file_queue s)" by simp
  have ne: "stderr_buf s \<noteq> []"
  proof
    assume "stderr_buf s = []"
    with a show False by (simp add: rstrip_cr_def match_blackframe_def)
  qed
  let ?s1 = "state_of (flush_pending_hits (s\<lparr>flush_timer_active := False\<rparr>))"
  have "hits (state_of (flush_stderr_tail ?s1)) = hits s @ [h]"
    using a ne by (simp add: hits_flush_stderr_tail flush_pending_hits_fields List.map_filter_simps)
  then show "map_of (all_hits (state_of (on_ffmpeg_finished path 0 s))) path
          = Some (sort_key frame (hits s @ [h]))"
    by (simp add: on_ffmpeg_finished_Done[OF idx] all_hits_store_results)
  show "raised (on_ffmpeg_finished path 0 s) = None"
    by (simp add: on_ffmpeg_finished_Done[OF idx])
qed (rule on_ffmpeg_finished_stdout_buf)+


text \<open>
  An unterminated \<^verbatim>\<open>out_time_ms=2500000\<close> on stdout stays in the buffer and the progress bar
  is still at 0 after the process has ended; the same line with its newline moves it to
  500.
\<close>

theorem stdout_remainder_not_flushed_counterexample:
  "stdout_buf (deliver (StdoutChunk ''out_time_ms=2500000'' 2)
       (analysing [''a.mp4'', ''b.mp4''] ''5.000000'')) = ''out_time_ms=2500000''
   \<and> progress_value (state_of (on_ffmpeg_finished ''a.mp4'' 0
        (deliver (StdoutChunk ''out_time_ms=2500000'' 2)
           (analysing [''a.mp4'', ''b.mp4''] ''5.000000'')))) = 0
   \<and> progress_value (state_of (on_ffmpeg_finished ''a.mp4'' 0
        (deliver (StdoutChunk (''out_time_ms=2500000'' @ [newline]) 2)
           (analysing [''a.mp4'', ''b.mp4''] ''5.000000'')))) = 500"
  by (simp add: eval_slots eval_queue eval_probe eval_text eval_split eval_ranges)

text \<open>
  An unterminated detection line on stderr is stored when the process ends with code 0.
\<close>

theorem finished_flushes_stderr_tail_witness:
  "current_queue_index (deliver (StderrChunk ''[Parsed_blackframe_0 @ 0x1] frame:3 pblack:100 pts:3 t:0.12'')
       (analysing [''a.mp4'', ''b.mp4''] ''5.000000''))
     < length (file_queue (deliver (StderrChunk ''[Parsed_blackframe_0 @ 0x1] frame:3 pblack:100 pts:3 t:0.12'')
       (analysing [''a.mp4'', ''b.mp4''] ''5.000000'')))
   \<and> parse_blackframe_line (rstrip_cr (stderr_buf
        (deliver (StderrChunk ''[Parsed_blackframe_0 @ 0x1] frame:3 pblack:100 pts:3 t:0.12'')
          (analysing [''a.mp4'', ''b.mp4''] ''5.000000''))))
       = Some \<lparr>frame = 3, time_s = Some (3 / 25), pblack = Some 100, pts = Some 3\<rparr>
   \<and> hits (deliver (StderrChunk ''[Parsed_blackframe_0 @ 0x1] frame:3 pblack:100 pts:3 t:0.12'')
          (analysing [''a.mp4'', ''b.mp4''] ''5.000000'')) = []
   \<and> map_of (all_hits (state_of (on_ffmpeg_finished ''a.mp4'' 0
        (deliver (StderrChunk ''[Parsed_blackframe_0 @ 0x1] frame:3 pblack:100 pts:3 t:0.12'')
          (analysing [''a.mp4'', ''b.mp4''] ''5.000000''))))) ''a.mp4''
       = Some [\<lparr>frame = 3, time_s = Some (3 / 25), pblack = Some 100, pts = Some 3\<rparr>]"
proof -
  let ?s = "deliver (StderrChunk ''[Parsed_blackframe_0 @ 0x1] frame:3 pblack:100 pts:3 t:0.12'')
       (analysing [''a.mp4'', ''b.mp4''] ''5.000000'')"
  let ?h = "\<lparr>frame = 3, time_s = Some (3 / 25), pblack = Some 100, pts = Some 3\<rparr>"
  have st: "stderr_buf ?s = ''[Parsed_blackframe_0 @ 0x1] frame:3 pblack:100 pts:3 t:0.12''"
    and hs: "hits ?s = []"
    and ix: "current_queue_index ?s < length (file_queue ?s)"
    by (simp_all add: eval_slots eval_queue eval_probe eval_text eval_split)
  have ps: "parse_blackframe_line (rstrip_cr (stderr_buf ?s)) = Some ?h"
    unfolding st by (simp add: eval_text rstrip_cr_def)
  from finished_flushes_stderr_tail[where s = ?s and h = ?h and path = "''a.mp4''"] ix ps
  have "map_of (all_hits (state_of (on_ffmpeg_finished ''a.mp4'' 0 ?s))) ''a.mp4''
          = Some (sort_key frame (hits ?s @ [?h]))" by blast
  then have "map_of (all_hits (state_of (on_ffmpeg_finished ''a.mp4'' 0 ?s))) ''a.mp4'' = Some [?h]"
    unfolding hs by simp
  with ix ps hs show ?thesis by blast
qed

section \<open>A failing file in a batch\<close>

lemma record_failure_and_advance_spec:
  assumes "queue_active s"
  shows "file_queue (record_failure_and_advance path label s) = file_queue s"
    and "current_queue_index (record_failure_and_advance path label s) = Suc (current_queue_index s)"
    and "map_of (all_hits (record_failure_and_advance path label s)) path = Some []"
    and "map_of (all_ranges (record_failure_and_advance path label s)) path = Some []"
    and "FileFailed path label \<in> set (status_lines (record_failure_and_advance path label s))"
    and "Suc (current_queue_index s) < length (file_queue s) \<Longrightarrow>
           queue_active (record_failure_and_advance path label s)
           \<and> probe_proc (record_failure_and_advance path label s)
               = Some (file_queue s ! Suc (current_queue_index s))"
    and "\<not> Suc (current_queue_index s) < length (file_queue s) \<Longrightarrow>
           \<not> queue_active (record_failure_and_advance path label s)
           \<and> \<not> running (record_failure_and_advance path label s)"
  using assms
  by (simp_all add: record_failure_and_advance_def Let_def start_next_file_def run_ffprobe_def
      on_all_files_finished_def render_all_frames_table_def render_all_ranges_table_def
      append_status_line_def mark_list_item_failed_def update_conv')

lemma store_results_spec:
  assumes "queue_active s"
  shows "file_queue (store_results path s) = file_queue s"
    and "current_queue_index (store_results path s) = Suc (current_queue_index s)"
    and "Suc (current_queue_index s) < length (file_queue s) \<Longrightarrow>
           queue_active (store_results path s)
           \<and> probe_proc (store_results path s) = Some (file_queue s ! Suc (current_queue_index s))"
    and "\<not> Suc (current_queue_index s) < length (file_queue s) \<Longrightarrow>
           \<not> queue_active (store_results path s) \<and> \<not> running (store_results path s)"
  using assms
  by (simp_all add: store_results_def Let_def start_next_file_def run_ffprobe_def
      on_all_files_finished_def render_all_frames_table_def render_all_ranges_table_def
      append_status_line_def)


lemma state_of_and_then:
  "state_of (and_then r f) = (case r of Done t \<Rightarrow> state_of (f t) | Raised e t \<Rightarrow> t)"
  by (cases r) simp_all

lemma queue_view_update_progress_eta:
  "queue_view (state_of (update_progress_eta fr now s)) = queue_view s"
  by (simp add: update_progress_eta_def queue_view_def Let_def split: option.splits)

lemma queue_view_stdout_line:
  "queue_view (state_of (stdout_line now line s)) = queue_view s"
proof -
  have "queue_view (state_of (update_progress_eta fr now (s\<lparr>progress_value := v\<rparr>))) = queue_view s"
    for fr v
    using queue_view_update_progress_eta[of fr now "s\<lparr>progress_value := v\<rparr>"]
    by (simp add: queue_view_def)
  then show ?thesis
    by (simp add: stdout_line_def split: option.splits sum.splits) (simp add: queue_view_def)
qed

lemma queue_view_stdout_lines:
  "queue_view (state_of (stdout_lines now ls s)) = queue_view s"
proof (induction ls arbitrary: s)
  case Nil
  show ?case by simp
next
  case (Cons l ls)
  show ?case
  proof (cases "stdout_line now l s")
    case (Done t)
    then have "queue_view t = queue_view s" using queue_view_stdout_line[of now l s] by simp
    with Done Cons.IH[of t] show ?thesis by simp
  next
    case (Raised e t)
    then have "queue_view t = queue_view s" using queue_view_stdout_line[of now l s] by simp
    with Raised show ?thesis by simp
  qed
qed

lemma queue_view_stderr_lines: "queue_view (stderr_lines ls s) = queue_view s"
  by (induction ls arbitrary: s) (simp_all add: queue_view_def split: option.splits)

lemma queue_view_flush_pending_hits:
  "queue_view (state_of (flush_pending_hits s)) = queue_view s"
  by (simp add: flush_pending_hits_def queue_view_def Let_def)

lemma queue_view_deliver: "queue_view (deliver e s) = queue_view s"
proof (cases e)
  case (StdoutChunk chunk now)
  have "queue_view (state_of (stdout_lines now ls (s\<lparr>stdout_buf := b\<rparr>))) = queue_view s" for ls b
    using queue_view_stdout_lines[of now ls "s\<lparr>stdout_buf := b\<rparr>"] by (simp add: queue_view_def)
  with StdoutChunk show ?thesis
    by (simp add: on_ffmpeg_stdout_chunk_def split: prod.splits)
next
  case (StderrChunk chunk)
  have "queue_view (stderr_lines ls (s\<lparr>stderr_buf := b\<rparr>)) = queue_view s" for ls b
    using queue_view_stderr_lines[of ls "s\<lparr>stderr_buf := b\<rparr>"] by (simp add: queue_view_def)
  with StderrChunk show ?thesis
    by (simp add: on_ffmpeg_stderr_chunk_def split: prod.splits)
next
  case TimerTick
  then show ?thesis by (simp add: queue_view_flush_pending_hits)
qed

lemma queue_view_events:
  "queue_view (foldl (\<lambda>st e. deliver e st) s es) = queue_view s"
  by (induction es arbitrary: s) (simp_all add: queue_view_deliver)

lemma queue_view_flush_stderr_tail:
  "queue_view (state_of (flush_stderr_tail s)) = queue_view s"
proof -
  have "queue_view (state_of (flush_pending_hits (stderr_lines ls (s\<lparr>stderr_buf := []\<rparr>))))
          = queue_view s" for ls
    by (simp add: queue_view_flush_pending_hits queue_view_stderr_lines) (simp add: queue_view_def)
  then show ?thesis by (simp add: flush_stderr_tail_def Let_def del: stderr_lines.simps)
qed

lemma queue_view_fields:
  assumes "queue_view t = queue_view s"
  shows "file_queue t = file_queue s" "current_queue_index t = current_queue_index s"
    "queue_active t = queue_active s" "running t = running s" "probe_proc t = probe_proc s"
    "file_list t = file_list s"
  using assms by (simp_all add: queue_view_def)


lemma queue_view_read_probe_metadata:
  "queue_view (read_probe_metadata float_of_str out s) = queue_view s"
  by (simp add: read_probe_metadata_def Let_def queue_view_def
      split: probe_output.splits sum.splits option.splits)

lemma queue_view_launch_ffmpeg: "queue_view (launch_ffmpeg path s) = queue_view s"
  by (simp add: launch_ffmpeg_def Let_def queue_view_def)

lemma run_ffmpeg_started:
  "queue_view (run_ffmpeg path True now s) = queue_view s"
proof -
  have "queue_view (t\<lparr>analysis_start_time := a, flush_timer_active := b\<rparr>) = queue_view t" for t a b
    by (simp add: queue_view_def)
  then show ?thesis by (simp add: run_ffmpeg_def Let_def queue_view_launch_ffmpeg)
qed

lemma run_file_cases:
  assumes idx: "current_queue_index s < length (file_queue s)" and pp: "probe_proc s \<noteq> None"
    and ps: "probe_started r"
  shows "\<exists>s2. queue_view s2 = queue_view s
           \<and> run_file float_of_str r s =
               (if file_failed r
                then record_failure_and_advance (file_queue s ! current_queue_index s) (failure_label r) s2
                else store_results (file_queue s ! current_queue_index s) s2)"
proof -
  let ?path = "file_queue s ! current_queue_index s"
  let ?s1 = "on_ffprobe_finished float_of_str ?path (probe_exit_code r) (probe_stdout r)
               (ffmpeg_started r) (ffmpeg_start_time r) s"
  show ?thesis
  proof (cases "probe_rejected r")
    case True
    from pp obtain y where y: "probe_proc s = Some y" by blast
    from True have rej: "probe_exit_code r \<noteq> 0 \<or> probe_stdout r = NoOutput"
      by (simp add: probe_rejected_def)
    have "?s1 = record_failure_and_advance ?path ''FAILED - probe'' s"
      unfolding on_ffprobe_finished_def using y rej by (simp only: option.simps if_False if_True)
    then have "run_file float_of_str r s = record_failure_and_advance ?path ''FAILED - probe'' s"
      using True ps by (simp add: run_file_def Let_def)
    with True ps show ?thesis
      by (intro exI[of _ s]) (simp add: file_failed_def failure_label_def)
  next
    case False
    then have acc: "\<not> (probe_exit_code r \<noteq> 0 \<or> probe_stdout r = NoOutput)"
      by (simp add: probe_rejected_def)
    define s1 where "s1 = read_probe_metadata float_of_str (probe_stdout r) s"
    from pp obtain y where y: "probe_proc s = Some y" by blast
    have s1: "?s1 = run_ffmpeg ?path (ffmpeg_started r) (ffmpeg_start_time r) s1"
      unfolding on_ffprobe_finished_def s1_def using y acc
      by (simp only: option.simps if_False)
    have v1: "queue_view s1 = queue_view s"
      by (simp add: s1_def queue_view_read_probe_metadata)
    show ?thesis
    proof (cases "ffmpeg_started r")
      case nostart: False
      define s2 where "s2 = launch_ffmpeg ?path s1"
      have s2: "run_ffmpeg ?path False (ffmpeg_start_time r) s1
                  = record_failure_and_advance ?path ''FAILED - ffmpeg start'' s2"
        by (simp add: run_ffmpeg_def s2_def)
      have v2: "queue_view s2 = queue_view s1"
        by (simp add: s2_def queue_view_launch_ffmpeg)
      have "run_file float_of_str r s = record_failure_and_advance ?path ''FAILED - ffmpeg start'' s2"
        using nostart s1 s2 ps by (simp add: run_file_def Let_def)
      with False nostart v1 v2 ps show ?thesis
        by (intro exI[of _ s2]) (simp add: file_failed_def failure_label_def)
    next
      case started: True
      let ?s3 = "foldl (\<lambda>st e. deliver e st) ?s1 (ffmpeg_events r)"
      have v3: "queue_view ?s3 = queue_view s"
        using s1 started v1 by (simp add: queue_view_events run_ffmpeg_started)
      have idx3: "current_queue_index ?s3 < length (file_queue ?s3)"
        using idx by (simp only: queue_view_fields(1,2)[OF v3])
      let ?s4 = "state_of (flush_stderr_tail
                   (state_of (flush_pending_hits (?s3\<lparr>flush_timer_active := False\<rparr>))))"
      have "queue_view (?s3\<lparr>flush_timer_active := False\<rparr>) = queue_view ?s3"
        by (simp add: queue_view_def)
      then have v4: "queue_view ?s4 = queue_view s"
        using v3 by (simp add: queue_view_flush_stderr_tail queue_view_flush_pending_hits)
      have "run_file float_of_str r s =
              (if ffmpeg_exit_code r \<noteq> 0 then record_failure_and_advance ?path ''FAILED'' ?s4
               else store_results ?path ?s4)"
      proof -
        have "run_file float_of_str r s
                = state_of (on_ffmpeg_finished ?path (ffmpeg_exit_code r) ?s3)"
          unfolding run_file_def Let_def using False started ps by (simp only: simp_thms if_False)
        then show ?thesis
          unfolding on_ffmpeg_finished_Done[OF idx3] by (simp add: Let_def)
      qed
      with False started v4 ps show ?thesis
        by (intro exI[of _ ?s4]) (simp add: file_failed_def failure_label_def)
    qed
  qed
qed

lemma run_file_step:
  assumes act: "queue_active s" and idx: "current_queue_index s < length (file_queue s)"
    and pp: "probe_proc s \<noteq> None" and ps: "probe_started r"
  shows "file_queue (run_file float_of_str r s) = file_queue s"
    and "current_queue_index (run_file float_of_str r s) = Suc (current_queue_index s)"
    and "file_failed r \<Longrightarrow>
           map_of (all_hits (run_file float_of_str r s)) (file_queue s ! current_queue_index s) = Some []
         \<and> map_of (all_ranges (run_file float_of_str r s)) (file_queue s ! current_queue_index s) = Some []
         \<and> FileFailed (file_queue s ! current_queue_index s) (failure_label r)
              \<in> set (status_lines (run_file float_of_str r s))"
    and "Suc (current_queue_index s) < length (file_queue s) \<Longrightarrow>
           queue_active (run_file float_of_str r s)
         \<and> probe_proc (run_file float_of_str r s) = Some (file_queue s ! Suc (current_queue_index s))"
    and "\<not> Suc (current_queue_index s) < length (file_queue s) \<Longrightarrow>
           \<not> queue_active (run_file float_of_str r s) \<and> \<not> running (run_file float_of_str r s)"
proof -
  from run_file_cases[OF idx pp ps, of float_of_str]
  obtain s2 where v: "queue_view s2 = queue_view s"
    and rf: "run_file float_of_str r s =
               (if file_failed r
                then record_failure_and_advance (file_queue s ! current_queue_index s) (failure_label r) s2
                else store_results (file_queue s ! current_queue_index s) s2)" by blast
  have act2: "queue_active s2" using act by (simp only: queue_view_fields(3)[OF v])
  note f = queue_view_fields[OF v]
  note a = record_failure_and_advance_spec[OF act2] store_results_spec[OF act2]
  show "file_queue (run_file float_of_str r s) = file_queue s"
    unfolding rf by (cases "file_failed r") (simp_all only: if_True if_False a(1) a(8) f(1))
  show "current_queue_index (run_file float_of_str r s) = Suc (current_queue_index s)"
    unfolding rf by (cases "file_failed r") (simp_all only: if_True if_False a(2) a(9) f(2))
  show "file_failed r \<Longrightarrow>
           map_of (all_hits (run_file float_of_str r s)) (file_queue s ! current_queue_index s) = Some []
         \<and> map_of (all_ranges (run_file float_of_str r s)) (file_queue s ! current_queue_index s) = Some []
         \<and> FileFailed (file_queue s ! current_queue_index s) (failure_label r)
              \<in> set (status_lines (run_file float_of_str r s))"
    by (simp only: rf a(3) a(4) a(5) if_True simp_thms)
  show "Suc (current_queue_index s) < length (file_queue s) \<Longrightarrow>
           queue_active (run_file float_of_str r s)
         \<and> probe_proc (run_file float_of_str r s) = Some (file_queue s ! Suc (current_queue_index s))"
    using a(6)[of "file_queue s ! current_queue_index s" "failure_label r"]
          a(10)[of "file_queue s ! current_queue_index s"]
    unfolding rf f(1) f(2) by (cases "file_failed r") simp_all
  show "\<not> Suc (current_queue_index s) < length (file_queue s) \<Longrightarrow>
           \<not> queue_active (run_file float_of_str r s) \<and> \<not> running (run_file float_of_str r s)"
    using a(7)[of "file_queue s ! current_queue_index s" "failure_label r"]
          a(11)[of "file_queue s ! current_queue_index s"]
    unfolding rf f(1) f(2) by (cases "file_failed r") simp_all
qed


lemma start_spec:
  assumes "filter (\<lambda>p. p \<noteq> [] \<and> path_exists p) (file_list w) \<noteq> []"
  shows "file_queue (start path_exists now w) = filter (\<lambda>p. p \<noteq> [] \<and> path_exists p) (file_list w)"
    and "current_queue_index (start path_exists now w) = 0"
    and "queue_active (start path_exists now w)"
    and "probe_proc (start path_exists now w) \<noteq> None"
  using assms
  by (simp_all add: start_def Let_def start_next_file_def run_ffprobe_def)

lemma run_batch_snoc:
  assumes "\<forall>x\<in>set rs. probe_started x"
  shows "run_batch float_of_str (rs @ [r]) s =
     (let t = run_batch float_of_str rs s
      in if queue_active t \<and> current_queue_index t < length (file_queue t)
         then run_file float_of_str r t else t)"
  using assms
proof (induction rs arbitrary: s)
  case Nil
  show ?case by simp
next
  case (Cons a rs)
  then have a: "probe_started a" and rest: "\<forall>x\<in>set rs. probe_started x" by simp_all
  show ?case
  proof (cases "queue_active s \<and> current_queue_index s < length (file_queue s)")
    case True
    then show ?thesis using Cons.IH[OF rest, of "run_file float_of_str a s"] a by simp
  next
    case False
    then show ?thesis by auto
  qed
qed

lemma run_batch_prefix:
  assumes q: "file_queue s = queue" and i0: "current_queue_index s = 0" and act: "queue_active s"
    and pp: "probe_proc s \<noteq> None" and ne: "queue \<noteq> []"
  shows "k \<le> length runs \<Longrightarrow> k < length queue \<Longrightarrow> \<forall>x\<in>set (take k runs). probe_started x \<Longrightarrow>
           file_queue (run_batch float_of_str (take k runs) s) = queue
         \<and> current_queue_index (run_batch float_of_str (take k runs) s) = k
         \<and> queue_active (run_batch float_of_str (take k runs) s)
         \<and> probe_proc (run_batch float_of_str (take k runs) s) \<noteq> None"
proof (induction k)
  case 0
  show ?case using q i0 act pp by simp
next
  case (Suc k)
  have k: "k < length runs" "Suc k < length queue" using Suc.prems by simp_all
  have tk: "take (Suc k) runs = take k runs @ [runs ! k]"
    using k(1) by (simp add: take_Suc_conv_app_nth)
  have all_k: "\<forall>x\<in>set (take k runs). probe_started x" and ps: "probe_started (runs ! k)"
    using Suc.prems(3) unfolding tk by simp_all
  let ?t = "run_batch float_of_str (take k runs) s"
  have IH: "file_queue ?t = queue" "current_queue_index ?t = k" "queue_active ?t"
    "probe_proc ?t \<noteq> None"
    using Suc.IH all_k k by simp_all
  have idx: "current_queue_index ?t < length (file_queue ?t)" using IH k by simp
  have step: "run_batch float_of_str (take (Suc k) runs) s = run_file float_of_str (runs ! k) ?t"
    unfolding tk run_batch_snoc[OF all_k] using IH(3) idx by (simp add: Let_def)
  have nxt: "Suc (current_queue_index ?t) < length (file_queue ?t)" using IH k by simp
  note st = run_file_step[OF IH(3) idx IH(4) ps, where float_of_str = float_of_str]
  show ?case
    unfolding step using st(1) st(2) st(4)[OF nxt] IH(1,2) by simp
qed

text \<open>
  What holds as long as every probe process starts. A batch is started on the rows of the
  file list that exist, and the tools behave in any other way whatever for each file
  (\<open>runs\<close>). When the signals of file \<open>i\<close> have been delivered, the queue index is
  \<open>i + 1\<close>. If the probe was rejected, or the analysis did not start, or it ended with a
  nonzero exit code, then the file's entry in both result dictionaries is the empty list,
  whatever detections had been parsed, and the status label has the file's line with the
  failure label. Either way the probe of file \<open>i + 1\<close> has been launched in a still active
  batch, or, after the last file, the batch has completed.
\<close>

lemma batch_advances_when_probes_start:
  assumes "queue = filter (\<lambda>p. p \<noteq> [] \<and> path_exists p) (file_list w)"
    and "i < length queue" and "i < length runs"
    and "\<forall>x\<in>set (take (Suc i) runs). probe_started x"
  shows "file_queue (run_batch float_of_str (take (Suc i) runs) (start path_exists now w)) = queue
       \<and> current_queue_index (run_batch float_of_str (take (Suc i) runs) (start path_exists now w)) = Suc i
       \<and> (file_failed (runs ! i) \<longrightarrow>
            map_of (all_hits (run_batch float_of_str (take (Suc i) runs) (start path_exists now w)))
              (queue ! i) = Some []
          \<and> map_of (all_ranges (run_batch float_of_str (take (Suc i) runs) (start path_exists now w)))
              (queue ! i) = Some []
          \<and> FileFailed (queue ! i) (failure_label (runs ! i))
              \<in> set (status_lines (run_batch float_of_str (take (Suc i) runs) (start path_exists now w))))
       \<and> (Suc i < length queue \<longrightarrow>
            queue_active (run_batch float_of_str (take (Suc i) runs) (start path_exists now w))
          \<and> probe_proc (run_batch float_of_str (take (Suc i) runs) (start path_exists now w))
              = Some (queue ! Suc i))
       \<and> (Suc i = length queue \<longrightarrow>
            \<not> queue_active (run_batch float_of_str (take (Suc i) runs) (start path_exists now w))
          \<and> \<not> running (run_batch float_of_str (take (Suc i) runs) (start path_exists now w)))"
proof -
  let ?s = "start path_exists now w"
  have ne: "filter (\<lambda>p. p \<noteq> [] \<and> path_exists p) (file_list w) \<noteq> []"
    using assms(1,2) by auto
  note sp = start_spec[OF ne, where now = now]
  have q: "file_queue ?s = queue" using sp(1) assms(1) by simp
  have qne: "queue \<noteq> []" using assms(2) by auto
  have ti: "take (Suc i) runs = take i runs @ [runs ! i]"
    using assms(3) by (simp add: take_Suc_conv_app_nth)
  have all_i: "\<forall>x\<in>set (take i runs). probe_started x" and ps: "probe_started (runs ! i)"
    using assms(4) unfolding ti by simp_all
  let ?t = "run_batch float_of_str (take i runs) ?s"
  have pre: "file_queue ?t = queue \<and> current_queue_index ?t = i \<and> queue_active ?t
              \<and> probe_proc ?t \<noteq> None"
    using run_batch_prefix[OF q sp(2) sp(3) sp(4) qne, where k = i and runs = runs
        and float_of_str = float_of_str] assms(2,3) all_i by simp
  then have t: "file_queue ?t = queue" "current_queue_index ?t = i" "queue_active ?t"
    "probe_proc ?t \<noteq> None" by simp_all
  have idx: "current_queue_index ?t < length (file_queue ?t)" using t assms(2) by simp
  have step: "run_batch float_of_str (take (Suc i) runs) ?s = run_file float_of_str (runs ! i) ?t"
    unfolding ti run_batch_snoc[OF all_i] using t(3) idx by (simp add: Let_def)
  note st = run_file_step[OF t(3) idx t(4) ps, where float_of_str = float_of_str]
  have a: "file_queue (run_file float_of_str (runs ! i) ?t) = queue"
    using st(1) t(1) by simp
  have b: "current_queue_index (run_file float_of_str (runs ! i) ?t) = Suc i"
    using st(2) t(2) by simp
  have c: "file_failed (runs ! i) \<longrightarrow>
            map_of (all_hits (run_file float_of_str (runs ! i) ?t)) (queue ! i) = Some []
          \<and> map_of (all_ranges (run_file float_of_str (runs ! i) ?t)) (queue ! i) = Some []
          \<and> FileFailed (queue ! i) (failure_label (runs ! i))
              \<in> set (status_lines (run_file float_of_str (runs ! i) ?t))"
    using st(3) unfolding t(1) t(2) by blast
  have d: "Suc i < length queue \<longrightarrow>
            queue_active (run_file float_of_str (runs ! i) ?t)
          \<and> probe_proc (run_file float_of_str (runs ! i) ?t) = Some (queue ! Suc i)"
    using st(4) unfolding t(1) t(2) by blast
  have e: "Suc i = length queue \<longrightarrow>
            \<not> queue_active (run_file float_of_str (runs ! i) ?t)
          \<and> \<not> running (run_file float_of_str (runs ! i) ?t)"
    using st(5) unfolding t(1) t(2) by simp
  show ?thesis unfolding step using a b c d e by blast
qed




lemmas eval_batch = run_file_def probe_rejected_def file_failed_def failure_label_def clean_run_def

text \<open>
  Three files, the second of which prints a detection and then exits with code 1: its
  stored lists are empty, its line says \<^verbatim>\<open>FAILED\<close>, and the probe of the third file is
  running.
\<close>

lemma batch_advances_when_probes_start_example:
  "filter (\<lambda>p. p \<noteq> [] \<and> (\<lambda>p. True) p)
      (file_list (add_files_to_list [''a.mp4'', ''b.mp4'', ''c.mp4''] init))
     = [''a.mp4'', ''b.mp4'', ''c.mp4'']
   \<and> file_failed ([clean_run, clean_run\<lparr>ffmpeg_exit_code := 1\<rparr>, clean_run] ! 1)
   \<and> hits (foldl (\<lambda>st e. deliver e st) (analysing [''b.mp4''] ''5.000000'')
              (ffmpeg_events (clean_run\<lparr>ffmpeg_exit_code := 1\<rparr>)))
        = [\<lparr>frame = 3, time_s = Some (3 / 25), pblack = Some 100, pts = Some 3\<rparr>]
   \<and> map_of (all_hits (run_batch float_of_decimal
          (take (Suc 1) [clean_run, clean_run\<lparr>ffmpeg_exit_code := 1\<rparr>, clean_run])
          (start (\<lambda>p. True) 0 (add_files_to_list [''a.mp4'', ''b.mp4'', ''c.mp4''] init))))
        ''b.mp4'' = Some []
   \<and> map_of (all_ranges (run_batch float_of_decimal
          (take (Suc 1) [clean_run, clean_run\<lparr>ffmpeg_exit_code := 1\<rparr>, clean_run])
          (start (\<lambda>p. True) 0 (add_files_to_list [''a.mp4'', ''b.mp4'', ''c.mp4''] init))))
        ''b.mp4'' = Some []
   \<and> FileFailed ''b.mp4'' ''FAILED''
        \<in> set (status_lines (run_batch float_of_decimal
          (take (Suc 1) [clean_run, clean_run\<lparr>ffmpeg_exit_code := 1\<rparr>, clean_run])
          (start (\<lambda>p. True) 0 (add_files_to_list [''a.mp4'', ''b.mp4'', ''c.mp4''] init))))
   \<and> current_queue_index (run_batch float_of_decimal
          (take (Suc 1) [clean_run, clean_run\<lparr>ffmpeg_exit_code := 1\<rparr>, clean_run])
          (start (\<lambda>p. True) 0 (add_files_to_list [''a.mp4'', ''b.mp4'', ''c.mp4''] init))) = Suc 1
   \<and> probe_proc (run_batch float_of_decimal
          (take (Suc 1) [clean_run, clean_run\<lparr>ffmpeg_exit_code := 1\<rparr>, clean_run])
          (start (\<lambda>p. True) 0 (add_files_to_list [''a.mp4'', ''b.mp4'', ''c.mp4''] init)))
        = Some ''c.mp4''"
proof -
  let ?w = "add_files_to_list [''a.mp4'', ''b.mp4'', ''c.mp4''] init"
  let ?runs = "[clean_run, clean_run\<lparr>ffmpeg_exit_code := 1\<rparr>, clean_run]"
  let ?q = "[''a.mp4'', ''b.mp4'', ''c.mp4'']"
  have q: "?q = filter (\<lambda>p. p \<noteq> [] \<and> (\<lambda>p. True) p) (file_list ?w)"
    by (simp add: init_def)
  have f: "file_failed (?runs ! 1)"
    by (simp add: eval_batch)
  have l: "failure_label (?runs ! 1) = ''FAILED''"
    by (simp add: eval_batch)
  have h: "hits (foldl (\<lambda>st e. deliver e st) (analysing [''b.mp4''] ''5.000000'')
              (ffmpeg_events (clean_run\<lparr>ffmpeg_exit_code := 1\<rparr>)))
        = [\<lparr>frame = 3, time_s = Some (3 / 25), pblack = Some 100, pts = Some 3\<rparr>]"
    by (simp add: eval_batch eval_slots eval_queue eval_probe eval_text eval_split)
  note inst = batch_advances_when_probes_start[where queue = ?q and path_exists = "\<lambda>p. True"
      and w = ?w and i = 1 and runs = ?runs and float_of_str = float_of_decimal and now = 0]
  have i1: "(1::nat) < length ?q" "(1::nat) < length ?runs" by simp_all
  let ?after = "run_batch float_of_decimal (take (Suc 1) ?runs) (start (\<lambda>p. True) 0 ?w)"
  have qn: "?q ! 1 = ''b.mp4''" "?q ! Suc 1 = ''c.mp4''" "Suc 1 < length ?q" by simp_all
  have st: "\<forall>x\<in>set (take (Suc 1) ?runs). probe_started x"
    by (simp add: clean_run_def)
  note r = inst[OF q i1 st]
  from r f have c1: "map_of (all_hits ?after) (?q ! 1) = Some []" by blast
  from r f have c2: "map_of (all_ranges ?after) (?q ! 1) = Some []" by blast
  from r f have c3: "FileFailed (?q ! 1) (failure_label (?runs ! 1)) \<in> set (status_lines ?after)"
    by blast
  from r have c4: "current_queue_index ?after = Suc 1" by blast
  from r qn(3) have c5: "probe_proc ?after = Some (?q ! Suc 1)" by blast
  have qq: "filter (\<lambda>p. p \<noteq> [] \<and> (\<lambda>p. True) p) (file_list ?w) = ?q"
    using q by (rule sym)
  show ?thesis
    using qq f h c1[unfolded qn] c2[unfolded qn] c3[unfolded qn l] c4 c5[unfolded qn]
    by (intro conjI)
qed

text \<open>
  Claim C1, at the input where the code departs from it. Two files are queued and the
  probe process of the first one does not start. \<^verbatim>\<open>_run_ffprobe\<close> neither waits for the
  start nor listens for an error, so no slot runs: nothing is stored for the file, no
  failure line is written, the queue index stays at 0 and the second file is never
  probed, while the batch still counts as running. The analysis process is treated
  otherwise: when it does not start, \<^verbatim>\<open>_run_ffmpeg\<close> records the failure and moves on.
\<close>

theorem probe_start_failure_halts_batch:
  "current_queue_index (run_batch float_of_decimal
        [clean_run\<lparr>probe_started := False\<rparr>, clean_run]
        (start (\<lambda>p. True) 0 (add_files_to_list [''a.mp4'', ''b.mp4''] init))) = 0
   \<and> queue_active (run_batch float_of_decimal
        [clean_run\<lparr>probe_started := False\<rparr>, clean_run]
        (start (\<lambda>p. True) 0 (add_files_to_list [''a.mp4'', ''b.mp4''] init)))
   \<and> running (run_batch float_of_decimal
        [clean_run\<lparr>probe_started := False\<rparr>, clean_run]
        (start (\<lambda>p. True) 0 (add_files_to_list [''a.mp4'', ''b.mp4''] init)))
   \<and> probe_proc (run_batch float_of_decimal
        [clean_run\<lparr>probe_started := False\<rparr>, clean_run]
        (start (\<lambda>p. True) 0 (add_files_to_list [''a.mp4'', ''b.mp4''] init))) = Some ''a.mp4''
   \<and> all_hits (run_batch float_of_decimal
        [clean_run\<lparr>probe_started := False\<rparr>, clean_run]
        (start (\<lambda>p. True) 0 (add_files_to_list [''a.mp4'', ''b.mp4''] init))) = []
   \<and> all_ranges (run_batch float_of_decimal
        [clean_run\<lparr>probe_started := False\<rparr>, clean_run]
        (start (\<lambda>p. True) 0 (add_files_to_list [''a.mp4'', ''b.mp4''] init))) = []
   \<and> status_lines (run_batch float_of_decimal
        [clean_run\<lparr>probe_started := False\<rparr>, clean_run]
        (start (\<lambda>p. True) 0 (add_files_to_list [''a.mp4'', ''b.mp4''] init))) = []
   \<and> progress_format (run_batch float_of_decimal
        [clean_run\<lparr>probe_started := False\<rparr>, clean_run]
        (start (\<lambda>p. True) 0 (add_files_to_list [''a.mp4'', ''b.mp4''] init)))
       = Probing 1 2 ''a.mp4''
   \<and> current_queue_index (run_batch float_of_decimal
        [clean_run\<lparr>ffmpeg_started := False\<rparr>]
        (start (\<lambda>p. True) 0 (add_files_to_list [''a.mp4'', ''b.mp4''] init))) = 1
   \<and> status_lines (run_batch float_of_decimal
        [clean_run\<lparr>ffmpeg_started := False\<rparr>]
        (start (\<lambda>p. True) 0 (add_files_to_list [''a.mp4'', ''b.mp4''] init)))
       = [FileFailed ''a.mp4'' ''FAILED - ffmpeg start'']
   \<and> probe_proc (run_batch float_of_decimal
        [clean_run\<lparr>ffmpeg_started := False\<rparr>]
        (start (\<lambda>p. True) 0 (add_files_to_list [''a.mp4'', ''b.mp4''] init))) = Some ''b.mp4''"
  by (simp add: eval_batch eval_slots eval_queue eval_probe eval_text)

section \<open>The duration guard on progress lines\<close>

text \<open>
  What holds around the failing input of claim C10: without a known, positive duration a
  progress line changes nothing and the bar is busy; from one microsecond on the division
  is defined.
\<close>

lemma unknown_duration_skips_line:
  "\<not> duration_known s \<Longrightarrow> stdout_line now line s = Done s"
  by (simp add: stdout_line_def)

lemma unknown_duration_is_indeterminate:
  "\<not> duration_known s \<Longrightarrow> \<not> progress_determinate (launch_ffmpeg path s)"
  by (simp add: launch_ffmpeg_def Let_def)

lemma no_division_by_zero_from_one_microsecond:
  assumes "1 / 1000000 \<le> duration_s"
  shows "\<exists>fr. progress_fraction duration_s out_time_us = Inr fr"
proof -
  have pos: "1 \<le> duration_s * 1000000" using assms by simp
  have fl: "1 \<le> \<lfloor>duration_s * 1000000\<rfloor>" using pos by (simp add: le_floor_iff)
  have "py_int (duration_s * 1000000) = \<lfloor>duration_s * 1000000\<rfloor>"
    using pos by (simp add: py_int_def)
  with fl have "py_int (duration_s * 1000000) \<noteq> 0" by linarith
  then show ?thesis by (simp add: progress_fraction_def Let_def)
qed

end
